theory Spec2Isabelle
  imports Main "HOL-Library.AList"
begin

section \<open>Channel types\<close>

text \<open>
  The string-literal unions of the channel types module are datatypes; timestamps are
  JavaScript numbers holding milliseconds and are modelled as \<open>int\<close>.  An optional
  property is an \<open>option\<close>.
\<close>

datatype PluginType = telegram | slack | discord

datatype PluginStatus =
  created | initializing | ready | starting | running | stopping | stopped | error

datatype PairingStatus = pending | approved | rejected | expired

text \<open>How a status prints inside a template literal.\<close>

fun PairingStatus_name :: "PairingStatus \<Rightarrow> string" where
  "PairingStatus_name pending = ''pending''"
| "PairingStatus_name approved = ''approved''"
| "PairingStatus_name rejected = ''rejected''"
| "PairingStatus_name expired = ''expired''"

fun PluginStatus_name :: "PluginStatus \<Rightarrow> string" where
  "PluginStatus_name created = ''created''"
| "PluginStatus_name initializing = ''initializing''"
| "PluginStatus_name ready = ''ready''"
| "PluginStatus_name starting = ''starting''"
| "PluginStatus_name running = ''running''"
| "PluginStatus_name stopping = ''stopping''"
| "PluginStatus_name stopped = ''stopped''"
| "PluginStatus_name error = ''error''"

text \<open>
  An optional string in a condition: \<open>undefined\<close> and the empty string are falsy.
\<close>

definition falsy :: "string option \<Rightarrow> bool" where
  "falsy x = (case x of None \<Rightarrow> True | Some v \<Rightarrow> v = [])"

text \<open>A thrown JavaScript \<open>Error\<close>, with its message.\<close>

datatype exn = Error (message: string)

record IChannelUser =
  user_id :: string
  user_platformUserId :: string
  user_platformType :: PluginType
  user_displayName :: "string option"
  authorizedAt :: int
  lastActive :: "int option"
  sessionId :: "string option"

record IChannelPairingRequest =
  code :: string
  platformUserId :: string
  platformType :: PluginType
  displayName :: "string option"
  requestedAt :: int
  expiresAt :: int
  status :: PairingStatus

section \<open>The pairing tables of the database\<close>

text \<open>
  The two SQLite tables the pairing service works on, each a list of rows in insertion
  order, and the events the service emits on the IPC bridge.  A statement of the
  database class fails (returns \<open>success: false\<close>) only through a constraint of the
  schema: \<open>code\<close> is the primary key of \<open>assistant_pairing_codes\<close>, \<open>id\<close>
  is the primary key of \<open>assistant_users\<close>, whose pair
  \<open>(platform_user_id, platform_type)\<close> is unique.  Every operation reads the clock
  once: its argument \<open>now\<close> stands for \<open>Date.now()\<close>.
\<close>

datatype BridgeEvent =
  pairingRequested IChannelPairingRequest
| userAuthorized IChannelUser

record PairingStore =
  assistant_pairing_codes :: "IChannelPairingRequest list"
  assistant_users :: "IChannelUser list"
  emitted :: "BridgeEvent list"

text \<open>
  \<open>SELECT * FROM assistant_pairing_codes WHERE status = 'pending' AND expires_at > ?
  ORDER BY requested_at DESC\<close>
\<close>

definition getPendingPairingRequests :: "int \<Rightarrow> PairingStore \<Rightarrow> IChannelPairingRequest list" where
  "getPendingPairingRequests now s =
     sort_key (\<lambda>r. - requestedAt r)
       (filter (\<lambda>r. status r = pending \<and> expiresAt r > now) (assistant_pairing_codes s))"

definition getPairingRequestByCode :: "string \<Rightarrow> PairingStore \<Rightarrow> IChannelPairingRequest option" where
  "getPairingRequestByCode c s = find (\<lambda>r. code r = c) (assistant_pairing_codes s)"

definition createPairingRequest :: "IChannelPairingRequest \<Rightarrow> PairingStore \<Rightarrow> string + PairingStore" where
  "createPairingRequest request s =
     (if find (\<lambda>r. code r = code request) (assistant_pairing_codes s) \<noteq> None
      then Inl ''UNIQUE constraint failed: assistant_pairing_codes.code''
      else Inr (s\<lparr>assistant_pairing_codes := assistant_pairing_codes s @ [request]\<rparr>))"

definition updatePairingRequestStatus :: "string \<Rightarrow> PairingStatus \<Rightarrow> PairingStore \<Rightarrow> PairingStore" where
  "updatePairingRequestStatus c st s =
     s\<lparr>assistant_pairing_codes :=
         map (\<lambda>r. if code r = c then r\<lparr>status := st\<rparr> else r) (assistant_pairing_codes s)\<rparr>"

text \<open>\<open>DELETE FROM assistant_pairing_codes WHERE expires_at < ? OR status != 'pending'\<close>\<close>

definition cleanupExpiredPairingRequests :: "int \<Rightarrow> PairingStore \<Rightarrow> nat \<times> PairingStore" where
  "cleanupExpiredPairingRequests now s =
     (let keep = filter (\<lambda>r. \<not> (expiresAt r < now \<or> status r \<noteq> pending)) (assistant_pairing_codes s)
      in (length (assistant_pairing_codes s) - length keep, s\<lparr>assistant_pairing_codes := keep\<rparr>))"

definition getChannelUserByPlatform :: "string \<Rightarrow> PluginType \<Rightarrow> PairingStore \<Rightarrow> IChannelUser option" where
  "getChannelUserByPlatform uid pt s =
     find (\<lambda>u. user_platformUserId u = uid \<and> user_platformType u = pt) (assistant_users s)"

definition createChannelUser :: "IChannelUser \<Rightarrow> PairingStore \<Rightarrow> string + PairingStore" where
  "createChannelUser u s =
     (if find (\<lambda>v. user_id v = user_id u) (assistant_users s) \<noteq> None
      then Inl ''UNIQUE constraint failed: assistant_users.id''
      else if find (\<lambda>v. user_platformUserId v = user_platformUserId u
                        \<and> user_platformType v = user_platformType u) (assistant_users s) \<noteq> None
      then Inl ''UNIQUE constraint failed: assistant_users.platform_user_id, assistant_users.platform_type''
      else Inr (s\<lparr>assistant_users := assistant_users s @ [u]\<rparr>))"

section \<open>PairingService\<close>

definition CODE_EXPIRY_MS :: int where
  "CODE_EXPIRY_MS = 10 * 60 * 1000"

definition maxAttempts :: nat where
  "maxAttempts = 10"

text \<open>
  \<open>generateUniqueCode\<close>: the loop draws a random code per attempt; \<open>rnd k\<close> is the code
  \<open>generateRandomCode()\<close> returns at attempt \<open>k\<close>.
\<close>

function generateUniqueCode :: "(nat \<Rightarrow> string) \<Rightarrow> int \<Rightarrow> PairingStore \<Rightarrow> nat \<Rightarrow> exn + string" where
  "generateUniqueCode rnd now s attempts =
     (if attempts < maxAttempts then
        (let c = rnd attempts in
         case getPairingRequestByCode c s of
           None \<Rightarrow> Inr c
         | Some existing \<Rightarrow>
             if status existing \<noteq> pending \<or> expiresAt existing < now then Inr c
             else generateUniqueCode rnd now s (attempts + 1))
      else Inl (Error ''Failed to generate unique pairing code''))"
  by pat_completeness auto
termination
  by (relation "measure (\<lambda>(rnd, now, s, attempts). maxAttempts - attempts)") auto

declare generateUniqueCode.simps [simp del]

definition isIdentity :: "string \<Rightarrow> PluginType \<Rightarrow> IChannelPairingRequest \<Rightarrow> bool" where
  "isIdentity uid pt r \<longleftrightarrow> platformUserId r = uid \<and> platformType r = pt \<and> status r = pending"

text \<open>
  \<open>generatePairingCode\<close> returns \<open>{code, expiresAt}\<close> or throws; the store is
  returned with it.
\<close>

definition generatePairingCode ::
  "(nat \<Rightarrow> string) \<Rightarrow> int \<Rightarrow> string \<Rightarrow> PluginType \<Rightarrow> string option \<Rightarrow> PairingStore
     \<Rightarrow> (exn + string \<times> int) \<times> PairingStore" where
  "generatePairingCode rnd now uid pt dn s =
     (case (case find (isIdentity uid pt) (getPendingPairingRequests now s) of
              Some existing \<Rightarrow> if expiresAt existing > now then Some existing else None
            | None \<Rightarrow> None) of
        Some existing \<Rightarrow> (Inr (code existing, expiresAt existing), s)
      | None \<Rightarrow>
          (case generateUniqueCode rnd now s 0 of
             Inl e \<Rightarrow> (Inl e, s)
           | Inr c \<Rightarrow>
               (let request = \<lparr>code = c, platformUserId = uid, platformType = pt,
                                displayName = dn, requestedAt = now,
                                expiresAt = now + CODE_EXPIRY_MS, status = pending\<rparr>
                in case createPairingRequest request s of
                     Inl err \<Rightarrow>
                       (Inl (Error (if err = [] then ''Failed to create pairing request'' else err)), s)
                   | Inr s' \<Rightarrow>
                       (Inr (c, now + CODE_EXPIRY_MS),
                        s'\<lparr>emitted := emitted s' @ [pairingRequested request]\<rparr>))))"

definition refreshPairingCode ::
  "(nat \<Rightarrow> string) \<Rightarrow> int \<Rightarrow> string \<Rightarrow> PluginType \<Rightarrow> string option \<Rightarrow> PairingStore
     \<Rightarrow> (exn + string \<times> int) \<times> PairingStore" where
  "refreshPairingCode rnd now uid pt dn s =
     generatePairingCode rnd now uid pt dn
       (fold (\<lambda>request acc.
                if isIdentity uid pt request
                then updatePairingRequestStatus (code request) expired acc else acc)
             (getPendingPairingRequests now s) s)"

definition isUserAuthorized :: "string \<Rightarrow> PluginType \<Rightarrow> PairingStore \<Rightarrow> bool" where
  "isUserAuthorized uid pt s \<longleftrightarrow> getChannelUserByPlatform uid pt s \<noteq> None"

definition getPairingRequest :: "string \<Rightarrow> PairingStore \<Rightarrow> IChannelPairingRequest option" where
  "getPairingRequest c s = getPairingRequestByCode c s"

definition getPendingRequestForUser ::
  "int \<Rightarrow> string \<Rightarrow> PluginType \<Rightarrow> PairingStore \<Rightarrow> IChannelPairingRequest option" where
  "getPendingRequestForUser now uid pt s =
     find (\<lambda>r. platformUserId r = uid \<and> platformType r = pt \<and> status r = pending \<and> expiresAt r > now)
          (getPendingPairingRequests now s)"

definition getPendingRequests :: "int \<Rightarrow> PairingStore \<Rightarrow> IChannelPairingRequest list" where
  "getPendingRequests now s =
     filter (\<lambda>r. status r = pending \<and> expiresAt r > now) (getPendingPairingRequests now s)"

text \<open>The object \<open>{success, user?, error?}\<close> that approval and rejection return.\<close>

record PairingResult =
  success :: bool
  user :: "IChannelUser option"
  err :: "string option"

definition failed :: "string \<Rightarrow> PairingResult" where
  "failed e = \<lparr>success = False, user = None, err = Some e\<rparr>"

definition succeeded :: "IChannelUser option \<Rightarrow> PairingResult" where
  "succeeded u = \<lparr>success = True, user = u, err = None\<rparr>"

text \<open>
  \<open>approvePairing\<close>.  \<open>newId\<close> is the identifier the method builds for a new user
  from the clock and four random bytes.
\<close>

definition approvePairing :: "int \<Rightarrow> string \<Rightarrow> string \<Rightarrow> PairingStore \<Rightarrow> PairingResult \<times> PairingStore" where
  "approvePairing now newId c s =
     (case getPairingRequest c s of
        None \<Rightarrow> (failed ''Pairing request not found'', s)
      | Some request \<Rightarrow>
          if expiresAt request < now
          then (failed ''Pairing code has expired'', updatePairingRequestStatus c expired s)
          else if status request \<noteq> pending
          then (failed (''Pairing request already '' @ PairingStatus_name (status request)), s)
          else
            (case getChannelUserByPlatform (platformUserId request) (platformType request) s of
               Some existingUser \<Rightarrow>
                 (succeeded (Some existingUser), updatePairingRequestStatus c approved s)
             | None \<Rightarrow>
                 (let u = \<lparr>user_id = newId,
                           user_platformUserId = platformUserId request,
                           user_platformType = platformType request,
                           user_displayName = displayName request,
                           authorizedAt = now, lastActive = None, sessionId = None\<rparr>
                  in case createChannelUser u s of
                       Inl e \<Rightarrow> (failed e, s)
                     | Inr s1 \<Rightarrow>
                         (let s2 = updatePairingRequestStatus c approved s1
                          in (succeeded (Some u), s2\<lparr>emitted := emitted s2 @ [userAuthorized u]\<rparr>)))))"

definition rejectPairing :: "string \<Rightarrow> PairingStore \<Rightarrow> PairingResult \<times> PairingStore" where
  "rejectPairing c s =
     (case getPairingRequest c s of
        None \<Rightarrow> (failed ''Pairing request not found'', s)
      | Some request \<Rightarrow> (succeeded None, updatePairingRequestStatus c rejected s))"

definition cleanupExpired :: "int \<Rightarrow> PairingStore \<Rightarrow> nat \<times> PairingStore" where
  "cleanupExpired now s = cleanupExpiredPairingRequests now s"

section \<open>Concrete pairing stores\<close>

text \<open>Small stores on which the theorems below are instantiated.\<close>

definition store0 :: PairingStore where
  "store0 = \<lparr>assistant_pairing_codes = [], assistant_users = [], emitted = []\<rparr>"

definition request1 :: IChannelPairingRequest where
  "request1 = \<lparr>code = ''123456'', platformUserId = ''u1'', platformType = telegram,
      displayName = None, requestedAt = 1000, expiresAt = 601000, status = pending\<rparr>"

definition store1 :: PairingStore where
  "store1 = \<lparr>assistant_pairing_codes = [request1], assistant_users = [],
              emitted = [pairingRequested request1]\<rparr>"

definition user9 :: IChannelUser where
  "user9 = \<lparr>user_id = ''assistant_user_1'', user_platformUserId = ''u9'',
      user_platformType = telegram, user_displayName = None, authorizedAt = 500,
      lastActive = None, sessionId = None\<rparr>"

definition store2 :: PairingStore where
  "store2 = \<lparr>assistant_pairing_codes = [request1], assistant_users = [user9], emitted = []\<rparr>"

section \<open>BasePlugin\<close>

text \<open>
  A handler is a closure; only its identity matters here, so it is modelled by a name.
\<close>

type_synonym PluginMessageHandler = string
type_synonym PluginConfirmHandler = string

fun PluginType_name :: "PluginType \<Rightarrow> string" where
  "PluginType_name telegram = ''telegram''"
| "PluginType_name slack = ''slack''"
| "PluginType_name discord = ''discord''"

text \<open>
  \<open>IChannelPluginConfig\<close>: \<open>credentials_token\<close> is \<open>credentials?.token\<close>; the
  free-form \<open>config\<close> options are not read by the code modelled here and are left out.
\<close>

record IChannelPluginConfig =
  cfg_id :: string
  cfg_type :: PluginType
  cfg_name :: string
  enabled :: bool
  credentials_token :: "string option"
  cfg_status :: PluginStatus
  lastConnected :: "int option"
  cfg_createdAt :: int
  updatedAt :: int

record BotInfo =
  bot_id :: string
  username :: "string option"
  bot_displayName :: string

text \<open>
  An instance of a class that extends \<open>BasePlugin\<close>.  The fields of the base class are
  \<open>plugin_type\<close>, \<open>p_status\<close> (\<open>_status\<close>), \<open>config\<close>, \<open>messageHandler\<close>,
  \<open>confirmHandler\<close> and \<open>errorMessage\<close>.  The subclass is its private state
  \<open>platform\<close>, of any type \<open>'p\<close>, and its implementations of the abstract methods:
  each reads and changes the private state, and the three lifecycle hooks either return
  (\<open>None\<close>) or throw (\<open>Some e\<close>).
\<close>

record 'p BasePlugin =
  plugin_type :: PluginType
  p_status :: PluginStatus
  config :: "IChannelPluginConfig option"
  messageHandler :: "PluginMessageHandler option"
  confirmHandler :: "PluginConfirmHandler option"
  errorMessage :: "string option"
  platform :: 'p
  onInitialize :: "IChannelPluginConfig \<Rightarrow> 'p \<Rightarrow> exn option \<times> 'p"
  onStart :: "'p \<Rightarrow> exn option \<times> 'p"
  onStop :: "'p \<Rightarrow> exn option \<times> 'p"
  getActiveUserCount :: "'p \<Rightarrow> nat"
  getBotInfo :: "'p \<Rightarrow> BotInfo option"

definition setStatus :: "PluginStatus \<Rightarrow> string option \<Rightarrow> 'p BasePlugin \<Rightarrow> 'p BasePlugin" where
  "setStatus st e p = p\<lparr>p_status := st, errorMessage := e\<rparr>"

text \<open>
  The three lifecycle methods return the exception they throw, if any, and the instance
  as they leave it.
\<close>

definition initialize :: "IChannelPluginConfig \<Rightarrow> 'p BasePlugin \<Rightarrow> exn option \<times> 'p BasePlugin" where
  "initialize cfg p =
     (let p1 = (setStatus initializing None p)\<lparr>config := Some cfg\<rparr>;
          r = onInitialize p1 cfg (platform p1);
          p2 = p1\<lparr>platform := snd r\<rparr>
      in case fst r of
           None \<Rightarrow> (None, setStatus ready None p2)
         | Some e \<Rightarrow> (Some e, setStatus error (Some (message e)) p2))"

definition start :: "'p BasePlugin \<Rightarrow> exn option \<times> 'p BasePlugin" where
  "start p =
     (if p_status p \<noteq> ready \<and> p_status p \<noteq> stopped
      then (Some (Error (''Cannot start plugin in status: '' @ PluginStatus_name (p_status p))), p)
      else
        (let p1 = setStatus starting None p;
             r = onStart p1 (platform p1);
             p2 = p1\<lparr>platform := snd r\<rparr>
         in case fst r of
              None \<Rightarrow> (None, setStatus running None p2)
            | Some e \<Rightarrow> (Some e, setStatus error (Some (message e)) p2)))"

definition stop :: "'p BasePlugin \<Rightarrow> exn option \<times> 'p BasePlugin" where
  "stop p =
     (if p_status p \<noteq> running \<and> p_status p \<noteq> error
      then (None, p)
      else
        (let p1 = setStatus stopping None p;
             r = onStop p1 (platform p1);
             p2 = p1\<lparr>platform := snd r\<rparr>
         in case fst r of
              None \<Rightarrow> (None, setStatus stopped None p2)
            | Some e \<Rightarrow> (Some e, setStatus error (Some (message e)) p2)))"

definition onMessage :: "PluginMessageHandler \<Rightarrow> 'p BasePlugin \<Rightarrow> 'p BasePlugin" where
  "onMessage h p = p\<lparr>messageHandler := Some h\<rparr>"

definition onConfirm :: "PluginConfirmHandler \<Rightarrow> 'p BasePlugin \<Rightarrow> 'p BasePlugin" where
  "onConfirm h p = p\<lparr>confirmHandler := Some h\<rparr>"

section \<open>PluginManager\<close>

record IChannelPluginStatus =
  ps_id :: string
  ps_type :: PluginType
  ps_name :: string
  ps_enabled :: bool
  connected :: bool
  ps_status :: PluginStatus
  ps_lastConnected :: "int option"
  ps_error :: "string option"
  activeUsers :: nat
  botUsername :: "string option"
  hasToken :: bool

text \<open>
  The manager with what it writes to.  \<open>plugins\<close> is the map of running instances, in
  insertion order as a JavaScript \<open>Map\<close> keeps it; \<open>pluginErrors\<close> is the error
  cache; \<open>pluginRegistry\<close> is the module's registry of constructors, a constructor
  being the instance \<open>new Constructor()\<close> returns.  \<open>assistant_plugins\<close> is the table
  of persisted configurations and \<open>pluginStatusChanged\<close> the events emitted on the
  bridge, oldest first.
\<close>

record 'p PluginManager =
  plugins :: "(string \<times> 'p BasePlugin) list"
  pm_messageHandler :: "PluginMessageHandler option"
  pm_confirmHandler :: "PluginConfirmHandler option"
  pluginErrors :: "string \<rightharpoonup> string"
  pluginRegistry :: "PluginType \<rightharpoonup> 'p BasePlugin"
  assistant_plugins :: "IChannelPluginConfig list"
  pluginStatusChanged :: "(string \<times> IChannelPluginStatus) list"

definition getChannelPlugin :: "string \<Rightarrow> 'p PluginManager \<Rightarrow> IChannelPluginConfig option" where
  "getChannelPlugin pluginId m = find (\<lambda>c. cfg_id c = pluginId) (assistant_plugins m)"

text \<open>
  \<open>UPDATE assistant_plugins SET status = ?, last_connected = COALESCE(?, last_connected),
  updated_at = ? WHERE id = ?\<close>
\<close>

definition updateChannelPluginStatus ::
  "string \<Rightarrow> PluginStatus \<Rightarrow> int option \<Rightarrow> int \<Rightarrow> 'p PluginManager \<Rightarrow> 'p PluginManager" where
  "updateChannelPluginStatus pluginId st lastConn now m =
     m\<lparr>assistant_plugins :=
         map (\<lambda>c. if cfg_id c = pluginId
                   then c\<lparr>cfg_status := st,
                          lastConnected := (case lastConn of Some t \<Rightarrow> Some t | None \<Rightarrow> lastConnected c),
                          updatedAt := now\<rparr>
                   else c)
             (assistant_plugins m)\<rparr>"

definition getPluginError :: "string \<Rightarrow> 'p PluginManager \<Rightarrow> string option" where
  "getPluginError pluginId m = pluginErrors m pluginId"

definition has_token :: "IChannelPluginConfig \<Rightarrow> bool" where
  "has_token cfg = (case credentials_token cfg of Some t \<Rightarrow> t \<noteq> [] | None \<Rightarrow> False)"

definition buildPluginStatus :: "IChannelPluginConfig \<Rightarrow> 'p PluginManager \<Rightarrow> IChannelPluginStatus" where
  "buildPluginStatus cfg m =
     (let plugin = map_of (plugins m) (cfg_id cfg);
          botInfo = (case plugin of Some p \<Rightarrow> getBotInfo p (platform p) | None \<Rightarrow> None);
          cached = pluginErrors m (cfg_id cfg);
          errorMsg = (case plugin of
                        Some p \<Rightarrow> (case errorMessage p of Some e \<Rightarrow> Some e | None \<Rightarrow> cached)
                      | None \<Rightarrow> cached)
      in \<lparr>ps_id = cfg_id cfg, ps_type = cfg_type cfg, ps_name = cfg_name cfg,
          ps_enabled = enabled cfg,
          connected = (case plugin of Some p \<Rightarrow> p_status p = running | None \<Rightarrow> False),
          ps_status = (case plugin of Some p \<Rightarrow> p_status p | None \<Rightarrow> cfg_status cfg),
          ps_lastConnected = lastConnected cfg,
          ps_error = errorMsg,
          activeUsers = (case plugin of Some p \<Rightarrow> getActiveUserCount p (platform p) | None \<Rightarrow> 0),
          botUsername = (case botInfo of Some b \<Rightarrow> username b | None \<Rightarrow> None),
          hasToken = has_token cfg\<rparr>)"

definition getPluginStatuses :: "'p PluginManager \<Rightarrow> IChannelPluginStatus list" where
  "getPluginStatuses m = map (\<lambda>cfg. buildPluginStatus cfg m) (assistant_plugins m)"

definition emitStatusChange :: "string \<Rightarrow> 'p PluginManager \<Rightarrow> 'p PluginManager" where
  "emitStatusChange pluginId m =
     (case getChannelPlugin pluginId m of
        Some cfg \<Rightarrow>
          m\<lparr>pluginStatusChanged := pluginStatusChanged m @ [(pluginId, buildPluginStatus cfg m)]\<rparr>
      | None \<Rightarrow> m)"

definition errorStatus :: "IChannelPluginConfig \<Rightarrow> string \<Rightarrow> IChannelPluginStatus" where
  "errorStatus cfg errorMsg =
     \<lparr>ps_id = cfg_id cfg, ps_type = cfg_type cfg, ps_name = cfg_name cfg,
      ps_enabled = enabled cfg, connected = False, ps_status = error,
      ps_lastConnected = lastConnected cfg, ps_error = Some errorMsg, activeUsers = 0,
      botUsername = None, hasToken = has_token cfg\<rparr>"

definition emitStatusChangeWithError ::
  "string \<Rightarrow> IChannelPluginConfig \<Rightarrow> string \<Rightarrow> 'p PluginManager \<Rightarrow> 'p PluginManager" where
  "emitStatusChangeWithError pluginId cfg errorMsg m =
     m\<lparr>pluginStatusChanged := pluginStatusChanged m @ [(pluginId, errorStatus cfg errorMsg)]\<rparr>"

text \<open>The two handlers the manager attaches between \<open>initialize\<close> and \<open>start\<close>.\<close>

definition attachHandlers :: "'p PluginManager \<Rightarrow> 'p BasePlugin \<Rightarrow> 'p BasePlugin" where
  "attachHandlers m p =
     (let p1 = (case pm_messageHandler m of Some h \<Rightarrow> onMessage h p | None \<Rightarrow> p)
      in case pm_confirmHandler m of Some h \<Rightarrow> onConfirm h p1 | None \<Rightarrow> p1)"

text \<open>The \<open>catch\<close> block shared by the two \<open>try\<close> statements of \<open>startPlugin\<close>.\<close>

definition recordStartFailure ::
  "string \<Rightarrow> IChannelPluginConfig \<Rightarrow> int \<Rightarrow> 'p PluginManager \<Rightarrow> 'p PluginManager" where
  "recordStartFailure errorMsg cfg now m =
     emitStatusChangeWithError (cfg_id cfg) cfg errorMsg
       (updateChannelPluginStatus (cfg_id cfg) error None now
          (m\<lparr>pluginErrors := (pluginErrors m)(cfg_id cfg \<mapsto> errorMsg)\<rparr>))"

definition startPlugin ::
  "IChannelPluginConfig \<Rightarrow> int \<Rightarrow> 'p PluginManager \<Rightarrow> exn option \<times> 'p PluginManager" where
  "startPlugin cfg now m =
     (let m1 = m\<lparr>pluginErrors := (pluginErrors m)(cfg_id cfg := None)\<rparr>
      in if map_of (plugins m1) (cfg_id cfg) \<noteq> None then (None, m1)
         else
           (case pluginRegistry m1 (cfg_type cfg) of
              None \<Rightarrow>
                (let errorMsg = ''Unknown plugin type: '' @ PluginType_name (cfg_type cfg)
                 in (Some (Error errorMsg),
                     m1\<lparr>pluginErrors := (pluginErrors m1)(cfg_id cfg \<mapsto> errorMsg)\<rparr>))
            | Some plugin \<Rightarrow>
                (case initialize cfg plugin of
                   (Some e, p1) \<Rightarrow>
                     (Some e,
                      recordStartFailure (''Plugin initialization failed: '' @ message e) cfg now m1)
                 | (None, p1) \<Rightarrow>
                     (case start (attachHandlers m1 p1) of
                        (Some e, p2) \<Rightarrow>
                          (Some e,
                           recordStartFailure (''Plugin start failed: '' @ message e) cfg now m1)
                      | (None, p2) \<Rightarrow>
                          (None,
                           emitStatusChange (cfg_id cfg)
                             (updateChannelPluginStatus (cfg_id cfg) running (Some now) now
                                (m1\<lparr>plugins := AList.update (cfg_id cfg) p2 (plugins m1)\<rparr>)))))))"

text \<open>
  \<open>stopPlugin\<close>.  The map holds the instance by reference, so what \<open>stop()\<close> did to
  it before throwing is seen in the map.
\<close>

definition stopPlugin :: "string \<Rightarrow> int \<Rightarrow> 'p PluginManager \<Rightarrow> exn option \<times> 'p PluginManager" where
  "stopPlugin pluginId now m =
     (case map_of (plugins m) pluginId of
        None \<Rightarrow> (None, m)
      | Some plugin \<Rightarrow>
          (case stop plugin of
             (Some e, p1) \<Rightarrow> (Some e, m\<lparr>plugins := AList.update pluginId p1 (plugins m)\<rparr>)
           | (None, p1) \<Rightarrow>
               (None,
                emitStatusChange pluginId
                  (updateChannelPluginStatus pluginId stopped None now
                     (m\<lparr>plugins := AList.delete pluginId (plugins m)\<rparr>)))))"

text \<open>
  A manager as its constructor leaves it, over a registry and a table of persisted
  configurations, and the manager after a sequence of \<open>startPlugin\<close> and
  \<open>stopPlugin\<close> calls (a call that throws leaves the state it had reached).
\<close>

definition newPluginManager ::
  "(PluginType \<rightharpoonup> 'p BasePlugin) \<Rightarrow> IChannelPluginConfig list \<Rightarrow> 'p PluginManager" where
  "newPluginManager registry table =
     \<lparr>plugins = [], pm_messageHandler = None, pm_confirmHandler = None,
      pluginErrors = Map.empty, pluginRegistry = registry,
      assistant_plugins = table, pluginStatusChanged = []\<rparr>"

datatype ManagerCall = StartPlugin IChannelPluginConfig int | StopPlugin string int

fun call :: "'p PluginManager \<Rightarrow> ManagerCall \<Rightarrow> 'p PluginManager" where
  "call m (StartPlugin cfg now) = snd (startPlugin cfg now m)"
| "call m (StopPlugin pluginId now) = snd (stopPlugin pluginId now m)"

definition after_calls :: "ManagerCall list \<Rightarrow> 'p PluginManager \<Rightarrow> 'p PluginManager" where
  "after_calls cs m = foldl call m cs"

definition instances_of :: "string \<Rightarrow> 'p PluginManager \<Rightarrow> 'p BasePlugin list" where
  "instances_of pluginId m = map snd (filter (\<lambda>e. fst e = pluginId) (plugins m))"

text \<open>
  What holds of the manager between calls: the map has one entry per key, and a plugin
  that is in the map has no entry in the error cache.
\<close>

definition keys_clean :: "'p PluginManager \<Rightarrow> bool" where
  "keys_clean m \<longleftrightarrow>
     distinct (map fst (plugins m)) \<and> (\<forall>i \<in> fst ` set (plugins m). pluginErrors m i = None)"

section \<open>Concrete plugins and managers\<close>

text \<open>
  Plugins whose private state counts the calls of their hooks: one that works, one whose
  \<open>onStart\<close> throws (an invalid token), one whose \<open>onStop\<close> throws.
\<close>

definition okPlugin :: "nat BasePlugin" where
  "okPlugin =
     \<lparr>plugin_type = telegram, p_status = created, config = None, messageHandler = None,
      confirmHandler = None, errorMessage = None, platform = 0,
      onInitialize = (\<lambda>c n. (None, Suc n)), onStart = (\<lambda>n. (None, Suc n)),
      onStop = (\<lambda>n. (None, Suc n)), getActiveUserCount = (\<lambda>n. 0),
      getBotInfo = (\<lambda>n. None)\<rparr>"

definition badTokenPlugin :: "nat BasePlugin" where
  "badTokenPlugin = okPlugin\<lparr>onStart := (\<lambda>n. (Some (Error ''401 Unauthorized''), Suc n))\<rparr>"

definition stuckPlugin :: "nat BasePlugin" where
  "stuckPlugin = okPlugin\<lparr>onStop := (\<lambda>n. (Some (Error ''network down''), Suc n))\<rparr>"

definition cfgT :: IChannelPluginConfig where
  "cfgT = \<lparr>cfg_id = ''telegram_default'', cfg_type = telegram, cfg_name = ''Telegram'',
           enabled = True, credentials_token = Some ''123:abc'', cfg_status = stopped,
           lastConnected = None, cfg_createdAt = 1, updatedAt = 1\<rparr>"

definition mgrOk :: "nat PluginManager" where
  "mgrOk = after_calls [StartPlugin cfgT 1] (newPluginManager [telegram \<mapsto> okPlugin] [cfgT])"

definition mgrBad :: "nat PluginManager" where
  "mgrBad = newPluginManager [telegram \<mapsto> badTokenPlugin] [cfgT]"

definition mgrStuck :: "nat PluginManager" where
  "mgrStuck = after_calls [StartPlugin cfgT 1] (newPluginManager [telegram \<mapsto> stuckPlugin] [cfgT])"

section \<open>SessionManager\<close>

datatype ChannelAgentType = gemini | acp | codex

record IChannelSession =
  session_id :: string
  userId :: string
  agentType :: ChannelAgentType
  conversationId :: "string option"
  workspace :: "string option"
  createdAt :: int
  lastActivity :: int

text \<open>
  The table \<open>assistant_sessions\<close>, a list of rows whose primary key is \<open>id\<close>
  (\<open>session_id\<close>).  A write can be refused by a foreign key of the schema
  (\<open>user_id\<close> and \<open>conversation_id\<close> refer to tables that are not modelled): the
  flag \<open>accepted\<close> says whether the statement goes through, and a refused statement
  changes nothing.  The session manager ignores the result either way.

  \<open>INSERT ... ON CONFLICT(id) DO UPDATE SET agent_type, conversation_id, workspace,
  last_activity\<close>, with \<open>createdAt || now\<close> and \<open>lastActivity || now\<close> as values.
\<close>

definition upsertChannelSession ::
  "bool \<Rightarrow> int \<Rightarrow> IChannelSession \<Rightarrow> IChannelSession list \<Rightarrow> IChannelSession list" where
  "upsertChannelSession accepted now session table =
     (if \<not> accepted then table
      else if session_id session \<in> set (map session_id table)
      then map (\<lambda>row. if session_id row = session_id session
                        then row\<lparr>agentType := agentType session,
                                 conversationId := conversationId session,
                                 workspace := workspace session,
                                 lastActivity := (if lastActivity session = 0 then now
                                                  else lastActivity session)\<rparr>
                        else row) table
      else table @ [session\<lparr>createdAt := (if createdAt session = 0 then now else createdAt session),
                             lastActivity := (if lastActivity session = 0 then now
                                              else lastActivity session)\<rparr>])"

definition deleteChannelSession :: "string \<Rightarrow> IChannelSession list \<Rightarrow> IChannelSession list" where
  "deleteChannelSession sid table = filter (\<lambda>row. session_id row \<noteq> sid) table"

text \<open>\<open>SELECT * FROM assistant_sessions ORDER BY last_activity DESC\<close>\<close>

definition getChannelSessions :: "IChannelSession list \<Rightarrow> IChannelSession list" where
  "getChannelSessions table = sort_key (\<lambda>row. - lastActivity row) table"

text \<open>
  The manager: \<open>activeSessions\<close> is the \<open>Map\<close> from user id to session, in insertion
  order (\<open>AList.update\<close> replaces the value of a key in place and adds a new key at the
  end, as \<open>Map.set\<close> does), and \<open>assistant_sessions\<close> is the table it writes through
  to.
\<close>

record SessionManager =
  activeSessions :: "(string \<times> IChannelSession) list"
  assistant_sessions :: "IChannelSession list"

definition loadActiveSessions :: "SessionManager \<Rightarrow> SessionManager" where
  "loadActiveSessions s =
     s\<lparr>activeSessions :=
         fold (\<lambda>session cache. AList.update (userId session) session cache)
              (getChannelSessions (assistant_sessions s)) (activeSessions s)\<rparr>"

definition newSessionManager :: "IChannelSession list \<Rightarrow> SessionManager" where
  "newSessionManager table = loadActiveSessions \<lparr>activeSessions = [], assistant_sessions = table\<rparr>"

definition getSession :: "string \<Rightarrow> SessionManager \<Rightarrow> IChannelSession option" where
  "getSession uid s = map_of (activeSessions s) uid"

text \<open>
  \<open>createSessionWithConversation\<close>; \<open>newId\<close> is the \<open>uuid()\<close> of the new session.
\<close>

definition createSessionWithConversation ::
  "IChannelUser \<Rightarrow> string \<Rightarrow> ChannelAgentType \<Rightarrow> string option \<Rightarrow> int \<Rightarrow> string \<Rightarrow> bool
     \<Rightarrow> SessionManager \<Rightarrow> IChannelSession \<times> SessionManager" where
  "createSessionWithConversation u conv agent ws now newId accepted s =
     (let s1 = (case map_of (activeSessions s) (user_id u) of
                  Some existingSession \<Rightarrow>
                    s\<lparr>assistant_sessions :=
                        deleteChannelSession (session_id existingSession) (assistant_sessions s)\<rparr>
                | None \<Rightarrow> s);
          session = \<lparr>session_id = newId, userId = user_id u, agentType = agent,
                     conversationId = Some conv, workspace = ws,
                     createdAt = now, lastActivity = now\<rparr>;
          s2 = s1\<lparr>assistant_sessions := upsertChannelSession accepted now session (assistant_sessions s1)\<rparr>
      in (session, s2\<lparr>activeSessions := AList.update (user_id u) session (activeSessions s2)\<rparr>))"

text \<open>\<open>createSession\<close>; \<open>convId\<close> is the \<open>uuid()\<close> it draws for the conversation.\<close>

definition createSession ::
  "IChannelUser \<Rightarrow> ChannelAgentType \<Rightarrow> string option \<Rightarrow> int \<Rightarrow> string \<Rightarrow> string \<Rightarrow> bool
     \<Rightarrow> SessionManager \<Rightarrow> IChannelSession \<times> SessionManager" where
  "createSession u agent ws now convId newId accepted s =
     createSessionWithConversation u convId agent ws now newId accepted s"

definition updateSessionConversation ::
  "string \<Rightarrow> string \<Rightarrow> int \<Rightarrow> bool \<Rightarrow> SessionManager \<Rightarrow> bool \<times> SessionManager" where
  "updateSessionConversation sid conv now accepted s =
     (case find (\<lambda>e. session_id (snd e) = sid) (activeSessions s) of
        None \<Rightarrow> (False, s)
      | Some e \<Rightarrow>
          (let session = (snd e)\<lparr>conversationId := Some conv, lastActivity := now\<rparr>
           in (True,
               s\<lparr>activeSessions := AList.update (fst e) session (activeSessions s),
                  assistant_sessions := upsertChannelSession accepted now session (assistant_sessions s)\<rparr>)))"

definition updateSessionActivity :: "string \<Rightarrow> int \<Rightarrow> bool \<Rightarrow> SessionManager \<Rightarrow> SessionManager" where
  "updateSessionActivity uid now accepted s =
     (case map_of (activeSessions s) uid of
        None \<Rightarrow> s
      | Some old \<Rightarrow>
          (let session = old\<lparr>lastActivity := now\<rparr>
           in s\<lparr>activeSessions := AList.update uid session (activeSessions s),
                 assistant_sessions := upsertChannelSession accepted now session (assistant_sessions s)\<rparr>))"

text \<open>
  The two statements \<open>db.deleteChannelSession(session.id); this.activeSessions.delete(userId)\<close>
  that \<open>clearSession\<close>, \<open>clearSessionByConversationId\<close> and \<open>cleanupStaleSessions\<close>
  share.
\<close>

definition deleteFromDatabaseAndCache :: "string \<Rightarrow> IChannelSession \<Rightarrow> SessionManager \<Rightarrow> SessionManager" where
  "deleteFromDatabaseAndCache uid session s =
     s\<lparr>assistant_sessions := deleteChannelSession (session_id session) (assistant_sessions s),
        activeSessions := AList.delete uid (activeSessions s)\<rparr>"

definition clearSession :: "string \<Rightarrow> SessionManager \<Rightarrow> bool \<times> SessionManager" where
  "clearSession uid s =
     (case map_of (activeSessions s) uid of
        None \<Rightarrow> (False, s)
      | Some session \<Rightarrow> (True, deleteFromDatabaseAndCache uid session s))"

text \<open>
  \<open>clearSessionByConversationId\<close>: the first entry of the map with that conversation;
  an empty user id is falsy, and the method then returns \<open>null\<close>.
\<close>

definition clearSessionByConversationId ::
  "string \<Rightarrow> SessionManager \<Rightarrow> IChannelSession option \<times> SessionManager" where
  "clearSessionByConversationId conv s =
     (case find (\<lambda>e. conversationId (snd e) = Some conv) (activeSessions s) of
        None \<Rightarrow> (None, s)
      | Some e \<Rightarrow>
          if fst e = [] then (None, s)
          else (Some (snd e), deleteFromDatabaseAndCache (fst e) (snd e) s))"

text \<open>\<open>cleanupStaleSessions\<close>: one pass over the entries of the map.\<close>

definition cleanupStaleSessions :: "int \<Rightarrow> int \<Rightarrow> SessionManager \<Rightarrow> nat \<times> SessionManager" where
  "cleanupStaleSessions maxAgeMs now s =
     fold (\<lambda>e acc. if now - lastActivity (snd e) > maxAgeMs
                    then (fst acc + 1, deleteFromDatabaseAndCache (fst e) (snd e) (snd acc))
                    else acc)
          (activeSessions s) (0, s)"

text \<open>A call of the session manager, with what the call reads from its environment.\<close>

datatype SessionCall =
  CreateSession IChannelUser ChannelAgentType "string option" int string string bool
| CreateSessionWithConversation IChannelUser string ChannelAgentType "string option" int string bool
| UpdateSessionConversation string string int bool
| UpdateSessionActivity string int bool
| ClearSession string
| ClearSessionByConversationId string
| CleanupStaleSessions int int

fun session_call :: "SessionManager \<Rightarrow> SessionCall \<Rightarrow> SessionManager" where
  "session_call s (CreateSession u agent ws now convId newId accepted) =
     snd (createSession u agent ws now convId newId accepted s)"
| "session_call s (CreateSessionWithConversation u conv agent ws now newId accepted) =
     snd (createSessionWithConversation u conv agent ws now newId accepted s)"
| "session_call s (UpdateSessionConversation sid conv now accepted) =
     snd (updateSessionConversation sid conv now accepted s)"
| "session_call s (UpdateSessionActivity uid now accepted) = updateSessionActivity uid now accepted s"
| "session_call s (ClearSession uid) = snd (clearSession uid s)"
| "session_call s (ClearSessionByConversationId conv) = snd (clearSessionByConversationId conv s)"
| "session_call s (CleanupStaleSessions maxAgeMs now) = snd (cleanupStaleSessions maxAgeMs now s)"

definition after_session_calls :: "SessionCall list \<Rightarrow> SessionManager \<Rightarrow> SessionManager" where
  "after_session_calls cs s = foldl session_call s cs"

text \<open>
  What holds of the manager between calls: the map has one entry per key, the table
  one row per session id, every entry of the map is a session of its key, and every
  row of the table has the id of the session the map holds for the row's user.
\<close>

definition sessions_inv :: "SessionManager \<Rightarrow> bool" where
  "sessions_inv s \<longleftrightarrow>
     distinct (map fst (activeSessions s))
     \<and> distinct (map session_id (assistant_sessions s))
     \<and> (\<forall>e \<in> set (activeSessions s). userId (snd e) = fst e)
     \<and> (\<forall>row \<in> set (assistant_sessions s).
           \<exists>c. map_of (activeSessions s) (userId row) = Some c \<and> session_id c = session_id row)"

section \<open>A concrete session table and calls\<close>

definition row0 :: IChannelSession where
  "row0 = \<lparr>session_id = ''s0'', userId = ''assistant_user_1'', agentType = gemini,
           conversationId = Some ''c0'', workspace = None, createdAt = 5, lastActivity = 5\<rparr>"

definition calls0 :: "SessionCall list" where
  "calls0 = [CreateSession user9 gemini None 10 ''c1'' ''s1'' True,
             CreateSessionWithConversation user9 ''c2'' acp None 20 ''s2'' True]"

section \<open>ActionExecutor: routing an incoming message\<close>

datatype MessageContentType =
  ct_text | ct_photo | ct_document | ct_voice | ct_audio | ct_video | ct_sticker
| ct_action | ct_command

datatype ActionCategory = cat_platform | cat_system | cat_chat

record IUnifiedUser =
  uu_id :: string
  uu_username :: "string option"
  uu_displayName :: string

record IUnifiedMessageContent =
  content_type :: MessageContentType
  content_text :: string

record IMessageAction =
  action_type :: ActionCategory
  action_name :: string
  action_params :: "(string \<times> string) list"

record IUnifiedIncomingMessage =
  msg_id :: string
  msg_platform :: PluginType
  chatId :: string
  msg_user :: IUnifiedUser
  content :: IUnifiedMessageContent
  timestamp :: int
  action :: "IMessageAction option"

text \<open>
  The messages the router and the pairing-show handler send.  Each constructor stands
  for one message literal of the source, with the values the literal interpolates.
\<close>

datatype Outgoing =
  AuthorizedNotice
| PairingCodeNotice string int
| ErrorResponse string
| UserDataError
| SessionCreateFailed string
| UnsupportedMessageType
| ProcessingError string

record IActionResult =
  ar_success :: bool
  ar_message :: "Outgoing option"
  ar_error :: "string option"

definition createSuccessResponse :: "Outgoing option \<Rightarrow> IActionResult" where
  "createSuccessResponse m = \<lparr>ar_success = True, ar_message = m, ar_error = None\<rparr>"

definition createErrorResponse :: "string \<Rightarrow> IActionResult" where
  "createErrorResponse e = \<lparr>ar_success = False, ar_message = Some (ErrorResponse e), ar_error = Some e\<rparr>"

text \<open>
  What a run of the handler reads from outside: the clock, the random codes, whether
  the plugin's \<open>sendMessage\<close> throws for a message, whether the default-model lookup
  throws, the result of \<open>getOrCreateTelegramConversation\<close> (an error text or the id of
  the conversation), the \<open>uuid()\<close> of a new session and the fate of its write, and
  the exception, if any, that the dispatched action or chat processing throws.
\<close>

record RouterEnv =
  env_now :: int
  env_rnd :: "nat \<Rightarrow> string"
  env_send :: "Outgoing \<Rightarrow> exn option"
  env_model :: "exn option"
  env_conversation :: "string + string"
  env_newSessionId :: string
  env_accepted :: bool
  env_dispatch :: "exn option"

text \<open>What the handler does, in order, as far as the other components see it.\<close>

datatype Effect =
  LogNoPlugin
| PairingShow
| SendMessage Outgoing
| LookupChannelUser
| GetSession string
| GetDefaultModel
| GetOrCreateConversation
| CreateSessionWithConversationFor string string
| ExecuteAction string "(string \<times> string) list"
| HandleChatMessage string

record 'p Gateway =
  pluginManager :: "'p PluginManager"
  pairingStore :: PairingStore
  sessionManager :: SessionManager

definition getAllPlugins :: "'p PluginManager \<Rightarrow> 'p BasePlugin list" where
  "getAllPlugins m = map snd (plugins m)"

definition getPluginForMessage :: "IUnifiedIncomingMessage \<Rightarrow> 'p PluginManager \<Rightarrow> 'p BasePlugin option" where
  "getPluginForMessage msg m = find (\<lambda>p. plugin_type p = msg_platform msg) (getAllPlugins m)"

text \<open>\<open>Math.ceil((expiresAt - Date.now()) / 1000 / 60)\<close>\<close>

definition expiresInMinutes :: "int \<Rightarrow> int \<Rightarrow> int" where
  "expiresInMinutes expires now = - ((now - expires) div 60000)"

definition handlePairingShow ::
  "RouterEnv \<Rightarrow> string \<Rightarrow> PluginType \<Rightarrow> string option \<Rightarrow> PairingStore \<Rightarrow> IActionResult \<times> PairingStore" where
  "handlePairingShow env uid pt dn s =
     (if isUserAuthorized uid pt s then (createSuccessResponse (Some AuthorizedNotice), s)
      else
        (case generatePairingCode (env_rnd env) (env_now env) uid pt dn s of
           (Inr (c, expires), s') \<Rightarrow>
             (createSuccessResponse (Some (PairingCodeNotice c (expiresInMinutes expires (env_now env)))), s')
         | (Inl e, s') \<Rightarrow>
             (createErrorResponse (''Failed to generate pairing code: '' @ message e), s')))"

text \<open>
  \<open>await context.sendMessage(msg)\<close>: the exception it throws, if any, and the effect.
\<close>

definition sendMessage :: "RouterEnv \<Rightarrow> Outgoing \<Rightarrow> exn option \<times> Effect list" where
  "sendMessage env m = (env_send env m, [SendMessage m])"

text \<open>
  The branch taken for the entry command and for an unauthorized sender:
  \<open>const result = await handlePairingShow(context); if (result.message) await
  context.sendMessage(result.message); return\<close>.
\<close>

definition showPairing ::
  "RouterEnv \<Rightarrow> IUnifiedIncomingMessage \<Rightarrow> 'p Gateway \<Rightarrow> exn option \<times> Effect list \<times> 'p Gateway" where
  "showPairing env msg g =
     (case handlePairingShow env (uu_id (msg_user msg)) (msg_platform msg)
             (Some (uu_displayName (msg_user msg))) (pairingStore g) of
        (result, s') \<Rightarrow>
          (case ar_message result of
             Some m \<Rightarrow> (fst (sendMessage env m), PairingShow # snd (sendMessage env m),
                        g\<lparr>pairingStore := s'\<rparr>)
           | None \<Rightarrow> (None, [PairingShow], g\<lparr>pairingStore := s'\<rparr>)))"

text \<open>The routing at the end of the \<open>try\<close> block.\<close>

definition route ::
  "RouterEnv \<Rightarrow> IUnifiedIncomingMessage \<Rightarrow> exn option \<times> Effect list" where
  "route env msg =
     (case action msg of
        Some a \<Rightarrow> (env_dispatch env, [ExecuteAction (action_name a) (action_params a)])
      | None \<Rightarrow>
          if content_type (content msg) = ct_action
          then (env_dispatch env, [ExecuteAction (content_text (content msg)) []])
          else if content_type (content msg) = ct_text \<and> content_text (content msg) \<noteq> []
          then (env_dispatch env, [HandleChatMessage (content_text (content msg))])
          else sendMessage env UnsupportedMessageType)"

text \<open>The body of the \<open>try\<close> block of \<open>handleIncomingMessage\<close>.\<close>

definition tryBody ::
  "RouterEnv \<Rightarrow> IUnifiedIncomingMessage \<Rightarrow> 'p Gateway \<Rightarrow> exn option \<times> Effect list \<times> 'p Gateway" where
  "tryBody env msg g =
     (let uid = uu_id (msg_user msg);
          isAuthorized = isUserAuthorized uid (msg_platform msg) (pairingStore g)
      in if content_type (content msg) = ct_command \<and> content_text (content msg) = ''/start''
         then showPairing env msg g
         else if \<not> isAuthorized then showPairing env msg g
         else
           (case getChannelUserByPlatform uid (msg_platform msg) (pairingStore g) of
              None \<Rightarrow>
                (fst (sendMessage env UserDataError),
                 LookupChannelUser # snd (sendMessage env UserDataError), g)
            | Some channelUser \<Rightarrow>
                (case (case getSession (user_id channelUser) (sessionManager g) of
                         Some session \<Rightarrow> (if falsy (conversationId session) then None else Some session)
                       | None \<Rightarrow> None) of
                   Some session \<Rightarrow>
                     (fst (route env msg),
                      [LookupChannelUser, GetSession (user_id channelUser)] @ snd (route env msg), g)
                 | None \<Rightarrow>
                     (case env_model env of
                        Some e \<Rightarrow>
                          (Some e, [LookupChannelUser, GetSession (user_id channelUser), GetDefaultModel], g)
                      | None \<Rightarrow>
                          (case env_conversation env of
                             Inr conv \<Rightarrow>
                               (fst (route env msg),
                                [LookupChannelUser, GetSession (user_id channelUser), GetDefaultModel,
                                 GetOrCreateConversation,
                                 CreateSessionWithConversationFor (user_id channelUser) conv]
                                @ snd (route env msg),
                                g\<lparr>sessionManager :=
                                    snd (createSessionWithConversation channelUser conv gemini None
                                           (env_now env) (env_newSessionId env) (env_accepted env)
                                           (sessionManager g))\<rparr>)
                           | Inl why \<Rightarrow>
                               (fst (sendMessage env
                                       (SessionCreateFailed (if why = [] then ''Unknown error'' else why))),
                                [LookupChannelUser, GetSession (user_id channelUser), GetDefaultModel,
                                 GetOrCreateConversation]
                                @ snd (sendMessage env
                                         (SessionCreateFailed (if why = [] then ''Unknown error'' else why))),
                                g))))))"

text \<open>
  \<open>handleIncomingMessage\<close>: without a plugin for the platform it logs and returns;
  an exception of the \<open>try\<close> block is reported to the user by one more message.
  The result is the exception the handler's promise is rejected with, if any, the
  effects in order, and the gateway afterwards.
\<close>

definition handleIncomingMessage ::
  "RouterEnv \<Rightarrow> IUnifiedIncomingMessage \<Rightarrow> 'p Gateway \<Rightarrow> exn option \<times> Effect list \<times> 'p Gateway" where
  "handleIncomingMessage env msg g =
     (case getPluginForMessage msg (pluginManager g) of
        None \<Rightarrow> (None, [LogNoPlugin], g)
      | Some plugin \<Rightarrow>
          (case tryBody env msg g of
             (None, effs, g') \<Rightarrow> (None, effs, g')
           | (Some e, effs, g') \<Rightarrow>
               (fst (sendMessage env (ProcessingError (message e))),
                effs @ snd (sendMessage env (ProcessingError (message e))), g')))"

text \<open>The effects of the branches that only an authorized sender reaches.\<close>

fun needs_authorization :: "Effect \<Rightarrow> bool" where
  "needs_authorization LookupChannelUser = True"
| "needs_authorization (GetSession uid) = True"
| "needs_authorization GetDefaultModel = True"
| "needs_authorization GetOrCreateConversation = True"
| "needs_authorization (CreateSessionWithConversationFor uid conv) = True"
| "needs_authorization (ExecuteAction name params) = True"
| "needs_authorization (HandleChatMessage body) = True"
| "needs_authorization LogNoPlugin = False"
| "needs_authorization PairingShow = False"
| "needs_authorization (SendMessage m) = False"

section \<open>Concrete messages and gateways\<close>

definition envT :: RouterEnv where
  "envT = \<lparr>env_now = 1000, env_rnd = (\<lambda>k. ''123456''), env_send = (\<lambda>m. None),
           env_model = None, env_conversation = Inr ''conv1'', env_newSessionId = ''s1'',
           env_accepted = True, env_dispatch = None\<rparr>"

definition hello :: IUnifiedIncomingMessage where
  "hello = \<lparr>msg_id = ''m1'', msg_platform = telegram, chatId = ''chat1'',
            msg_user = \<lparr>uu_id = ''u1'', uu_username = None, uu_displayName = ''Ann''\<rparr>,
            content = \<lparr>content_type = ct_text, content_text = ''hello''\<rparr>,
            timestamp = 1000, action = None\<rparr>"

definition gatewayT :: "nat Gateway" where
  "gatewayT = \<lparr>pluginManager = mgrOk, pairingStore = store0, sessionManager = newSessionManager []\<rparr>"

definition gatewayNoPlugin :: "nat Gateway" where
  "gatewayNoPlugin = \<lparr>pluginManager = newPluginManager [telegram \<mapsto> okPlugin] [cfgT],
                       pairingStore = store0, sessionManager = newSessionManager []\<rparr>"

section \<open>ActionExecutor: streaming a chat response\<close>

text \<open>
  An outgoing chat message: \<open>replyMarkup\<close>, and \<open>body\<close> for all its other
  properties, so that \<open>{...m, replyMarkup: k}\<close> is the record update of
  \<open>replyMarkup\<close>.  The type \<open>TMessage\<close> of the agent's response events is declared
  outside the sources; it is the type variable \<open>'m\<close>, and
  \<open>convertTMessageToOutgoing(message, false)\<close> is the parameter \<open>convert\<close>.
\<close>

datatype ReplyMarkup =
  ResponseActionsKeyboard | ErrorRecoveryKeyboard | ToolConfirmationKeyboard string

record 'a OutMsg =
  body :: 'a
  replyMarkup :: "ReplyMarkup option"

text \<open>
  The calls made on the platform through the context, each with the time of the call:
  \<open>context.sendMessage\<close> for an inserted message, \<open>context.editMessage\<close> from
  \<open>doEditMessage\<close> (the throttled editor), the edit after the stream has completed,
  and the edit that reports a failure.
\<close>

datatype 'a PlatformCall =
  Sent int "'a OutMsg"
| ThrottledEdit int string "'a OutMsg"
| FinalEdit int string "'a OutMsg"
| ErrorEdit int string string

definition UPDATE_THROTTLE_MS :: int where
  "UPDATE_THROTTLE_MS = 500"

text \<open>
  The local variables of \<open>handleChatMessage\<close> that its closures share.
  \<open>pendingUpdateTimer\<close> holds the time at which the armed timer is due.
\<close>

record 'a ChatStream =
  thinkingMsgId :: string
  lastUpdateTime :: int
  pendingUpdateTimer :: "int option"
  pendingMessage :: "'a OutMsg option"
  sentMessageIds :: "string list"
  lastMessageContent :: "'a OutMsg option"
  calls :: "'a PlatformCall list"

definition newChatStream :: "string \<Rightarrow> 'a ChatStream" where
  "newChatStream thinking =
     \<lparr>thinkingMsgId = thinking, lastUpdateTime = 0, pendingUpdateTimer = None,
      pendingMessage = None, sentMessageIds = [thinking], lastMessageContent = None,
      calls = []\<rparr>"

text \<open>\<open>sentMessageIds[sentMessageIds.length - 1] || thinkingMsgId\<close>\<close>

definition targetMsgId :: "'a ChatStream \<Rightarrow> string" where
  "targetMsgId st =
     (if sentMessageIds st = [] \<or> last (sentMessageIds st) = [] then thinkingMsgId st
      else last (sentMessageIds st))"

text \<open>\<open>doEditMessage\<close>; an error of the edit is caught and ignored.\<close>

definition doEditMessage :: "int \<Rightarrow> 'a OutMsg \<Rightarrow> 'a ChatStream \<Rightarrow> 'a ChatStream" where
  "doEditMessage now m st =
     st\<lparr>lastUpdateTime := now, calls := calls st @ [ThrottledEdit now (targetMsgId st) m]\<rparr>"

text \<open>
  What happens while the stream runs.  \<open>Event now message isInsert sent\<close> is a call
  of the stream callback at time \<open>now\<close>; for an inserted message, \<open>sent\<close> is the id
  \<open>context.sendMessage\<close> returns (\<open>None\<close> when it throws, which is caught and
  ignored).  \<open>TimerFires t\<close> is the event loop at time \<open>t\<close> running the callback of
  the armed timer: it runs only if a timer is armed and due, as \<open>setTimeout\<close>
  guarantees.  Each callback runs to its end before the next one starts.
\<close>

datatype 'm StreamStep =
  Event int 'm bool "string option"
| TimerFires int

fun step :: "('m \<Rightarrow> 'a OutMsg) \<Rightarrow> 'a ChatStream \<Rightarrow> 'm StreamStep \<Rightarrow> 'a ChatStream" where
  "step convert st (Event now m isInsert sent) =
     (let outgoingMessage = convert m;
          st1 = st\<lparr>lastMessageContent := Some outgoingMessage\<rparr>
      in if isInsert then
           (let st2 = st1\<lparr>calls := calls st1 @ [Sent now outgoingMessage]\<rparr>
            in case sent of
                 Some newMsgId \<Rightarrow> st2\<lparr>sentMessageIds := sentMessageIds st2 @ [newMsgId]\<rparr>
               | None \<Rightarrow> st2)
         else
           (let st2 = st1\<lparr>pendingMessage := Some outgoingMessage\<rparr>
            in if now - lastUpdateTime st2 \<ge> UPDATE_THROTTLE_MS
               then doEditMessage now outgoingMessage (st2\<lparr>pendingUpdateTimer := None\<rparr>)
               else st2\<lparr>pendingUpdateTimer :=
                          Some (now + (UPDATE_THROTTLE_MS - (now - lastUpdateTime st2)))\<rparr>))"
| "step convert st (TimerFires t) =
     (case pendingUpdateTimer st of
        None \<Rightarrow> st
      | Some due \<Rightarrow>
          if t < due then st
          else
            (let st1 = (case pendingMessage st of
                          Some m \<Rightarrow> (doEditMessage t m st)\<lparr>pendingMessage := None\<rparr>
                        | None \<Rightarrow> st)
             in st1\<lparr>pendingUpdateTimer := None\<rparr>))"

text \<open>
  After \<open>messageService.sendMessage\<close> has resolved: the timer is cleared and the last
  message is edited once more, with the response actions keyboard.  \<open>done\<close> is the
  body of the literal \<open>Done\<close> message used when no event was received.
\<close>

definition finish :: "'a \<Rightarrow> int \<Rightarrow> 'a ChatStream \<Rightarrow> 'a ChatStream" where
  "finish done t st =
     (let st1 = st\<lparr>pendingUpdateTimer := None\<rparr>;
          finalMessage = (case lastMessageContent st1 of
                            Some m \<Rightarrow> m\<lparr>replyMarkup := Some ResponseActionsKeyboard\<rparr>
                          | None \<Rightarrow> \<lparr>body = done, replyMarkup = Some ResponseActionsKeyboard\<rparr>)
      in st1\<lparr>calls := calls st1 @ [FinalEdit t (targetMsgId st1) finalMessage]\<rparr>)"

text \<open>
  \<open>handleChatMessage\<close> from the point where the placeholder message has been sent
  and has the id \<open>thinking\<close>: the platform calls it makes, in order.  \<open>steps\<close> is
  what happens while \<open>messageService.sendMessage\<close> runs, \<open>thrown\<close> the exception
  it rejects with, if any, and \<open>t\<close> the time at which it settles.  When it
  rejects, the failure is reported by an edit of the placeholder message; what a timer
  that is still armed does after that is not followed.
\<close>

definition handleChatMessage ::
  "('m \<Rightarrow> 'a OutMsg) \<Rightarrow> 'a \<Rightarrow> string option \<Rightarrow> string option \<Rightarrow> string
     \<Rightarrow> 'm StreamStep list \<Rightarrow> exn option \<Rightarrow> int \<Rightarrow> 'a PlatformCall list" where
  "handleChatMessage convert done sid conv thinking steps thrown t =
     (if falsy sid \<or> falsy conv then [ErrorEdit t thinking ''Session not initialized'']
      else
        (let st = foldl (step convert) (newChatStream thinking) steps
         in case thrown of
              Some e \<Rightarrow> calls st @ [ErrorEdit t thinking (message e)]
            | None \<Rightarrow> calls (finish done t st)))"

text \<open>The times of the throttled edits, the final edits, and the events received.\<close>

fun throttled_times :: "'a PlatformCall list \<Rightarrow> int list" where
  "throttled_times [] = []"
| "throttled_times (ThrottledEdit t target m # cs) = t # throttled_times cs"
| "throttled_times (c # cs) = throttled_times cs"

fun final_edits :: "'a PlatformCall list \<Rightarrow> 'a OutMsg list" where
  "final_edits [] = []"
| "final_edits (FinalEdit t target m # cs) = m # final_edits cs"
| "final_edits (c # cs) = final_edits cs"

fun events :: "'m StreamStep list \<Rightarrow> 'm list" where
  "events [] = []"
| "events (Event now m isInsert sent # steps) = m # events steps"
| "events (TimerFires t # steps) = events steps"

text \<open>Consecutive times at least a throttle window apart.\<close>

fun spaced :: "int list \<Rightarrow> bool" where
  "spaced [] = True"
| "spaced [t] = True"
| "spaced (t1 # t2 # ts) = (t2 - t1 \<ge> UPDATE_THROTTLE_MS \<and> spaced (t2 # ts))"

text \<open>What holds of the closures' variables between callbacks.\<close>

definition throttle_inv :: "'a ChatStream \<Rightarrow> bool" where
  "throttle_inv st \<longleftrightarrow>
     spaced (throttled_times (calls st))
     \<and> (throttled_times (calls st) \<noteq> [] \<longrightarrow> last (throttled_times (calls st)) = lastUpdateTime st)
     \<and> (\<forall>due. pendingUpdateTimer st = Some due \<longrightarrow> due = lastUpdateTime st + UPDATE_THROTTLE_MS)"

section \<open>A concrete stream\<close>

text \<open>
  Three updates 100 ms apart, the last one inside the throttle window, and the stream
  completing before the timer fires.  Event messages are strings, converted to a
  message without markup.
\<close>

definition plain :: "string \<Rightarrow> string OutMsg" where
  "plain s = \<lparr>body = s, replyMarkup = None\<rparr>"

definition steps0 :: "string StreamStep list" where
  "steps0 = [Event 1700000000000 ''He'' False None,
             Event 1700000000100 ''Hell'' False None,
             Event 1700000000200 ''Hello'' False None]"

section \<open>Properties of the pairing service\<close>

lemma find_filter_conv: "find P (filter Q xs) = find (\<lambda>x. Q x \<and> P x) xs"
  by (induction xs) auto

lemma find_first_kept:
  "find P xs = Some e \<Longrightarrow> Q e \<Longrightarrow> find (\<lambda>x. Q x \<and> P x) xs = Some e"
  by (induction xs) (auto split: if_splits)

lemma gen_new_shape:
  assumes gen: "generatePairingCode rnd now uid pt dn s = (Inr (c, e), s1)"
    and None: "find (isIdentity uid pt) (getPendingPairingRequests now s) = None"
  shows "\<exists>s'. createPairingRequest \<lparr>code = c, platformUserId = uid, platformType = pt,
      displayName = dn, requestedAt = now, expiresAt = now + CODE_EXPIRY_MS, status = pending\<rparr> s = Inr s'
     \<and> s1 = s'\<lparr>emitted := emitted s' @ [pairingRequested \<lparr>code = c, platformUserId = uid, platformType = pt,
      displayName = dn, requestedAt = now, expiresAt = now + CODE_EXPIRY_MS, status = pending\<rparr>]\<rparr>
     \<and> e = now + CODE_EXPIRY_MS"
proof (cases "generateUniqueCode rnd now s 0")
  case (Inl a)
  with gen None show ?thesis by (simp add: generatePairingCode_def)
next
  case (Inr c')
  show ?thesis
  proof (cases "createPairingRequest \<lparr>code = c', platformUserId = uid, platformType = pt,
      displayName = dn, requestedAt = now, expiresAt = now + CODE_EXPIRY_MS, status = pending\<rparr> s")
    case (Inl a)
    with gen None Inr show ?thesis by (simp add: generatePairingCode_def)
  next
    case cr: (Inr s')
    with gen None Inr show ?thesis by (auto simp: generatePairingCode_def)
  qed
qed

lemma pending_later:
  "now \<le> now' \<Longrightarrow>
   getPendingPairingRequests now' s = filter (\<lambda>r. expiresAt r > now') (getPendingPairingRequests now s)"
proof -
  assume le: "now \<le> now'"
  have "filter (\<lambda>r. expiresAt r > now') (filter (\<lambda>r. status r = pending \<and> expiresAt r > now) xs)
      = filter (\<lambda>r. status r = pending \<and> expiresAt r > now') xs" for xs :: "IChannelPairingRequest list"
    using le by (induction xs) auto
  then show ?thesis
    unfolding getPendingPairingRequests_def filter_sort by simp
qed

lemma set_pending:
  "set (getPendingPairingRequests now s)
     = {r \<in> set (assistant_pairing_codes s). status r = pending \<and> expiresAt r > now}"
  unfolding getPendingPairingRequests_def by simp

lemma find_Some_D: "find P xs = Some x \<Longrightarrow> P x \<and> x \<in> set xs"
  by (induction xs) (auto split: if_splits)

lemma find_unique:
  assumes "x \<in> set xs" "P x" "\<And>y. y \<in> set xs \<Longrightarrow> P y \<Longrightarrow> y = x"
  shows "find P xs = Some x"
proof (cases "find P xs")
  case None
  then have "\<not> (\<exists>y. y \<in> set xs \<and> P y)" by (simp add: find_None_iff)
  with assms(1,2) show ?thesis by blast
next
  case (Some y)
  from find_Some_D[OF Some] have "P y" "y \<in> set xs" by simp_all
  with assms(3) have "y = x" by blast
  with Some show ?thesis by simp
qed

text \<open>
  Claim C4.  When \<open>generatePairingCode\<close> has returned \<open>{code, expiresAt}\<close> for an
  identity, a second call for the same identity at a later instant that is still before
  \<open>expiresAt\<close>, with nothing done to the store in between, returns the same code and
  the same \<open>expiresAt\<close> and leaves the store as it was: no second pending request is
  created and nothing is emitted.  The random draws and the display name of the second
  call do not matter.
\<close>

theorem generatePairingCode_idempotent:
  assumes gen: "generatePairingCode rnd now uid pt dn s = (Inr (c, e), s1)"
    and le: "now \<le> now'" and live: "now' < e"
  shows "generatePairingCode rnd' now' uid pt dn' s1 = (Inr (c, e), s1)"
proof (cases "find (isIdentity uid pt) (getPendingPairingRequests now s)")
  case (Some ex)
  from find_Some_D[OF Some] have "ex \<in> set (getPendingPairingRequests now s)" by simp
  then have fresh: "expiresAt ex > now" by (simp add: set_pending)
  with gen Some have eqs: "c = code ex" "e = expiresAt ex" "s1 = s"
    by (auto simp: generatePairingCode_def)
  have "find (isIdentity uid pt) (getPendingPairingRequests now' s) = Some ex"
    using find_first_kept[OF Some, of "\<lambda>r. expiresAt r > now'"] live eqs
    by (simp add: pending_later[OF le] find_filter_conv)
  then show ?thesis using live eqs by (simp add: generatePairingCode_def)
next
  case None
  define request where "request = \<lparr>code = c, platformUserId = uid, platformType = pt,
      displayName = dn, requestedAt = now, expiresAt = now + CODE_EXPIRY_MS, status = pending\<rparr>"
  from gen_new_shape[OF gen None] obtain s' where
    cr: "createPairingRequest request s = Inr s'"
    and s1: "s1 = s'\<lparr>emitted := emitted s' @ [pairingRequested request]\<rparr>"
    and e: "e = now + CODE_EXPIRY_MS"
    unfolding request_def by blast
  from cr have rows: "assistant_pairing_codes s1 = assistant_pairing_codes s @ [request]"
    by (auto simp: createPairingRequest_def s1 split: if_splits)
  have old: "\<not> isIdentity uid pt y"
    if "y \<in> set (assistant_pairing_codes s)" "status y = pending" "expiresAt y > now'" for y
  proof -
    from that le have "y \<in> set (getPendingPairingRequests now s)" by (simp add: set_pending)
    with None show ?thesis by (auto simp: find_None_iff)
  qed
  have req: "status request = pending" "expiresAt request = e" "code request = c"
    by (simp_all add: request_def e)
  have found: "find (isIdentity uid pt) (getPendingPairingRequests now' s1) = Some request"
  proof (rule find_unique)
    show "request \<in> set (getPendingPairingRequests now' s1)"
      using live req by (simp add: set_pending rows)
    show "isIdentity uid pt request" by (simp add: isIdentity_def request_def)
    show "y = request" if "y \<in> set (getPendingPairingRequests now' s1)" "isIdentity uid pt y" for y
      using that old by (auto simp: set_pending rows)
  qed
  show ?thesis
    unfolding generatePairingCode_def found using live req by simp
qed

lemma find_code_after_update:
  "find (\<lambda>r. code r = c) (map (\<lambda>r. if code r = c then r\<lparr>status := st\<rparr> else r) xs)
     = map_option (\<lambda>r. r\<lparr>status := st\<rparr>) (find (\<lambda>r. code r = c) xs)"
  by (induction xs) auto

lemma getPairingRequest_after_update:
  "getPairingRequest c (updatePairingRequestStatus c st s)
     = map_option (\<lambda>r. r\<lparr>status := st\<rparr>) (getPairingRequest c s)"
  by (simp add: getPairingRequest_def getPairingRequestByCode_def updatePairingRequestStatus_def
      find_code_after_update)

text \<open>
  Claim C5.  A request whose \<open>expiresAt\<close> lies before the instant of the read is
  treated as expired whether or not the sweep has run, also when its stored status is
  still \<open>pending\<close>: \<open>approvePairing\<close> on its code fails with the expiry error and
  marks the request \<open>expired\<close>, and neither \<open>getPendingRequests\<close> nor
  \<open>getPendingRequestForUser\<close> returns a request that has expired.
\<close>
theorem expired_request_read_paths:
  assumes req: "getPairingRequest c s = Some r" and past: "expiresAt r < now"
  shows "(case approvePairing now newId c s of
            (res, s') \<Rightarrow> res = \<lparr>success = False, user = None, err = Some ''Pairing code has expired''\<rparr>
                        \<and> map_option status (getPairingRequest c s') = Some expired)
       \<and> (\<forall>q uid pt. expiresAt q < now \<longrightarrow>
              q \<notin> set (getPendingRequests now s) \<and> getPendingRequestForUser now uid pt s \<noteq> Some q)"
proof -
  have a: "approvePairing now newId c s
             = (failed ''Pairing code has expired'', updatePairingRequestStatus c expired s)"
    using req past by (simp add: approvePairing_def)
  have b: "q \<notin> set (getPendingRequests now s)" if "expiresAt q < now" for q
    using that by (simp add: getPendingRequests_def)
  have c: "getPendingRequestForUser now uid pt s \<noteq> Some q" if "expiresAt q < now" for q uid pt
  proof
    assume "getPendingRequestForUser now uid pt s = Some q"
    then have "expiresAt q > now"
      unfolding getPendingRequestForUser_def by (auto dest: find_Some_D)
    with that show False by simp
  qed
  show ?thesis
    using b c by (simp add: a failed_def getPairingRequest_after_update req)
qed

text \<open>
  Claim C10.  For a request that is found, not expired and \<open>pending\<close>, whose identity
  has no \<open>ChannelUser\<close> yet: when the insertion of the new user fails, \<open>approvePairing\<close>
  returns \<open>{success: false}\<close> with the persistence error and the store is left as it
  was, so the request is still \<open>pending\<close> and the approval can be tried again.
\<close>
theorem approvePairing_create_failure:
  assumes req: "getPairingRequest c s = Some r"
    and live: "\<not> expiresAt r < now"
    and pend: "status r = pending"
    and nouser: "getChannelUserByPlatform (platformUserId r) (platformType r) s = None"
    and fail: "createChannelUser
                 \<lparr>user_id = newId, user_platformUserId = platformUserId r,
                  user_platformType = platformType r, user_displayName = displayName r,
                  authorizedAt = now, lastActive = None, sessionId = None\<rparr> s = Inl e"
  shows "approvePairing now newId c s = (\<lparr>success = False, user = None, err = Some e\<rparr>, s)
       \<and> map_option status (getPairingRequest c (snd (approvePairing now newId c s))) = Some pending"
proof -
  have "approvePairing now newId c s = (failed e, s)"
    using req live pend nouser fail by (simp add: approvePairing_def)
  then show ?thesis using req pend by (simp add: failed_def)
qed

text \<open>
  Before \<open>expiresAt\<close>, \<open>approvePairing\<close> does refuse a request that is no longer
  pending, with an error that names its status, and changes nothing.
\<close>
lemma approvePairing_terminal:
  assumes "getPairingRequest c s = Some r" "\<not> expiresAt r < now" "status r \<noteq> pending"
  shows "approvePairing now newId c s
           = (failed (''Pairing request already '' @ PairingStatus_name (status r)), s)"
  using assms by (simp add: approvePairing_def)

lemma first_generate:
  "generatePairingCode (\<lambda>k. ''123456'') 1000 ''u1'' telegram None store0
     = (Inr (''123456'', 601000), store1)"
  by (simp add: generatePairingCode_def getPendingPairingRequests_def store0_def store1_def
      request1_def generateUniqueCode.simps maxAttempts_def getPairingRequestByCode_def
      createPairingRequest_def CODE_EXPIRY_MS_def Let_def)

theorem generatePairingCode_idempotent_witness:
  "generatePairingCode (\<lambda>k. ''123456'') 1000 ''u1'' telegram None store0
     = (Inr (''123456'', 601000), store1)
   \<and> (1000::int) \<le> 2000 \<and> (2000::int) < 601000
   \<and> generatePairingCode (\<lambda>k. ''777777'') 2000 ''u1'' telegram (Some ''Ann'') store1
     = (Inr (''123456'', 601000), store1)"
  using generatePairingCode_idempotent [OF first_generate, of 2000 "\<lambda>k. ''777777''" "Some ''Ann''"]
    first_generate by simp

theorem expired_request_read_paths_witness:
  "getPairingRequest ''123456'' store1 = Some request1 \<and> expiresAt request1 < 700000
   \<and> fst (approvePairing 700000 ''assistant_user_1'' ''123456'' store1)
        = \<lparr>success = False, user = None, err = Some ''Pairing code has expired''\<rparr>
   \<and> map_option status
        (getPairingRequest ''123456'' (snd (approvePairing 700000 ''assistant_user_1'' ''123456'' store1)))
        = Some expired
   \<and> getPendingRequests 700000 store1 = []
   \<and> getPendingRequestForUser 700000 ''u1'' telegram store1 = None"
proof -
  have h1: "getPairingRequest ''123456'' store1 = Some request1"
    by (simp add: getPairingRequest_def getPairingRequestByCode_def store1_def request1_def)
  have h2: "expiresAt request1 < 700000" by (simp add: request1_def)
  have e1: "getPendingRequests 700000 store1 = []"
    by (simp add: getPendingRequests_def getPendingPairingRequests_def store1_def request1_def)
  have e2: "getPendingRequestForUser 700000 ''u1'' telegram store1 = None"
    by (simp add: getPendingRequestForUser_def getPendingPairingRequests_def store1_def request1_def)
  from expired_request_read_paths [OF h1 h2, of "''assistant_user_1''"] h1 h2 e1 e2
  show ?thesis by (auto simp: failed_def split: prod.splits)
qed

theorem approvePairing_create_failure_witness:
  "getPairingRequest ''123456'' store2 = Some request1
   \<and> \<not> expiresAt request1 < 2000 \<and> status request1 = pending
   \<and> getChannelUserByPlatform (platformUserId request1) (platformType request1) store2 = None
   \<and> approvePairing 2000 ''assistant_user_1'' ''123456'' store2
       = (\<lparr>success = False, user = None,
           err = Some ''UNIQUE constraint failed: assistant_users.id''\<rparr>, store2)
   \<and> map_option status
        (getPairingRequest ''123456'' (snd (approvePairing 2000 ''assistant_user_1'' ''123456'' store2)))
       = Some pending"
proof -
  have h1: "getPairingRequest ''123456'' store2 = Some request1"
    by (simp add: getPairingRequest_def getPairingRequestByCode_def store2_def request1_def)
  have h2: "\<not> expiresAt request1 < 2000" by (simp add: request1_def)
  have h3: "status request1 = pending" by (simp add: request1_def)
  have h4: "getChannelUserByPlatform (platformUserId request1) (platformType request1) store2 = None"
    by (simp add: getChannelUserByPlatform_def store2_def request1_def user9_def)
  have h5: "createChannelUser
              \<lparr>user_id = ''assistant_user_1'', user_platformUserId = platformUserId request1,
               user_platformType = platformType request1, user_displayName = displayName request1,
               authorizedAt = 2000, lastActive = None, sessionId = None\<rparr> store2
            = Inl ''UNIQUE constraint failed: assistant_users.id''"
    by (simp add: createChannelUser_def store2_def user9_def)
  from approvePairing_create_failure [OF h1 h2 h3 h4 h5] h1 h2 h3 h4
  show ?thesis by simp
qed

text \<open>
  Claim C2 (the code departs from it).  A request that has been approved is not final
  in the code: \<open>rejectPairing\<close> has no check of the current status and turns the
  approved request into \<open>rejected\<close>, and \<open>approvePairing\<close> tests the expiry before
  the status, so that after \<open>expiresAt\<close> it turns the approved request into
  \<open>expired\<close> and reports the expiry, not the current status.
\<close>
theorem rejectPairing_overwrites_terminal_status:
  "(case approvePairing 2000 ''assistant_user_7'' ''123456'' store1 of
      (res1, s1) \<Rightarrow>
        success res1 \<and> map_option status (getPairingRequest ''123456'' s1) = Some approved
        \<and> (case rejectPairing ''123456'' s1 of
              (res2, s2) \<Rightarrow>
                success res2 \<and> map_option status (getPairingRequest ''123456'' s2) = Some rejected)
        \<and> (case approvePairing 700000 ''assistant_user_8'' ''123456'' s1 of
              (res3, s3) \<Rightarrow>
                res3 = \<lparr>success = False, user = None, err = Some ''Pairing code has expired''\<rparr>
                \<and> map_option status (getPairingRequest ''123456'' s3) = Some expired))"
  by (simp add: approvePairing_def rejectPairing_def getPairingRequest_def
      getPairingRequestByCode_def getChannelUserByPlatform_def createChannelUser_def
      updatePairingRequestStatus_def store1_def request1_def succeeded_def failed_def Let_def)

section \<open>Properties of the plugin lifecycle and the plugin manager\<close>

text \<open>
  Claim C9.  For every plugin instance, whatever its platform hooks are: when the
  status is neither \<open>ready\<close> nor \<open>stopped\<close>, \<open>start\<close> throws and leaves the
  instance exactly as it was, so the platform's start logic has not run (it would have
  left the status \<open>running\<close> or \<open>error\<close>); when the status is neither
  \<open>running\<close> nor \<open>error\<close>, \<open>stop\<close> returns normally and leaves the instance
  exactly as it was.
\<close>

theorem lifecycle_guards:
  "(p_status p \<noteq> ready \<and> p_status p \<noteq> stopped \<longrightarrow>
      start p = (Some (Error (''Cannot start plugin in status: '' @ PluginStatus_name (p_status p))), p))
   \<and> (p_status p \<noteq> running \<and> p_status p \<noteq> error \<longrightarrow> stop p = (None, p))"
  by (simp add: start_def stop_def)

lemma plugins_updateChannelPluginStatus [simp]:
  "plugins (updateChannelPluginStatus i st lc now m) = plugins m"
  "pluginErrors (updateChannelPluginStatus i st lc now m) = pluginErrors m"
  "pluginStatusChanged (updateChannelPluginStatus i st lc now m) = pluginStatusChanged m"
  "pluginRegistry (updateChannelPluginStatus i st lc now m) = pluginRegistry m"
  by (simp_all add: updateChannelPluginStatus_def)

lemma plugins_emitStatusChange [simp]:
  "plugins (emitStatusChange i m) = plugins m"
  "pluginErrors (emitStatusChange i m) = pluginErrors m"
  "assistant_plugins (emitStatusChange i m) = assistant_plugins m"
  "pluginRegistry (emitStatusChange i m) = pluginRegistry m"
  by (simp_all add: emitStatusChange_def split: option.splits)

lemma fields_recordStartFailure [simp]:
  "plugins (recordStartFailure msg cfg now m) = plugins m"
  "pluginErrors (recordStartFailure msg cfg now m) = (pluginErrors m)(cfg_id cfg \<mapsto> msg)"
  "pluginRegistry (recordStartFailure msg cfg now m) = pluginRegistry m"
  "pluginStatusChanged (recordStartFailure msg cfg now m)
     = pluginStatusChanged m @ [(cfg_id cfg, errorStatus cfg msg)]"
  "assistant_plugins (recordStartFailure msg cfg now m)
     = assistant_plugins (updateChannelPluginStatus (cfg_id cfg) error None now m)"
  by (simp_all add: recordStartFailure_def emitStatusChangeWithError_def updateChannelPluginStatus_def)

lemma in_map_if:
  "y \<in> set (map (\<lambda>x. if P x then f x else x) xs)
     \<Longrightarrow> (\<exists>x\<in>set xs. P x \<and> y = f x) \<or> (y \<in> set xs \<and> \<not> P y)"
  by (induction xs) (auto split: if_splits)

lemma status_after_update:
  assumes mem: "c \<in> set (assistant_plugins (updateChannelPluginStatus i st lc now m))"
    and i: "cfg_id c = i"
  shows "cfg_status c = st"
proof -
  from mem have "c \<in> set (map (\<lambda>c. if cfg_id c = i
                   then c\<lparr>cfg_status := st,
                          lastConnected := (case lc of Some t \<Rightarrow> Some t | None \<Rightarrow> lastConnected c),
                          updatedAt := now\<rparr>
                   else c) (assistant_plugins m))"
    by (simp add: updateChannelPluginStatus_def)
  from in_map_if[OF this] consider
    (hit) x where "c = x\<lparr>cfg_status := st,
                          lastConnected := (case lc of Some t \<Rightarrow> Some t | None \<Rightarrow> lastConnected x),
                          updatedAt := now\<rparr>"
    | (miss) "cfg_id c \<noteq> i"
    by blast
  then show ?thesis
  proof cases
    case hit
    then show ?thesis by simp
  next
    case miss
    with i show ?thesis by simp
  qed
qed

lemma ids_after_update:
  "map cfg_id (assistant_plugins (updateChannelPluginStatus i st lc now m))
     = map cfg_id (assistant_plugins m)"
  by (simp add: updateChannelPluginStatus_def)

lemma startPlugin_failure:
  assumes "map_of (plugins m) (cfg_id cfg) = None"
    and "pluginRegistry m (cfg_type cfg) = Some plugin"
    and "fst (initialize cfg plugin) = Some e
         \<or> fst (initialize cfg plugin) = None
           \<and> fst (start (attachHandlers (m\<lparr>pluginErrors := (pluginErrors m)(cfg_id cfg := None)\<rparr>)
                     (snd (initialize cfg plugin)))) = Some e"
  shows "startPlugin cfg now m
     = (Some e,
        recordStartFailure
          ((if fst (initialize cfg plugin) = None then ''Plugin start failed: ''
            else ''Plugin initialization failed: '') @ message e)
          cfg now (m\<lparr>pluginErrors := (pluginErrors m)(cfg_id cfg := None)\<rparr>))"
  using assms by (auto simp: startPlugin_def Let_def split: prod.splits option.splits)

lemma attachHandlers_errors [simp]:
  "attachHandlers (m\<lparr>pluginErrors := x\<rparr>) p = attachHandlers m p"
  by (simp add: attachHandlers_def)

text \<open>
  Claim C7.  For a plugin that is not in the map and whose type is registered: when
  \<open>initialize\<close> throws, or \<open>initialize\<close> returns and \<open>start\<close> throws,
  \<open>startPlugin\<close> throws the same exception; the error cache holds for the plugin's id
  the thrown message behind the prefix of the failing step, and the status query built
  for the plugin's configuration reports that string; every persisted row of the
  plugin has status \<open>error\<close> (no row is added or removed); one status-changed event
  with status \<open>error\<close> and that string has been emitted; and the plugin is not in the
  map of running instances.
\<close>

theorem startPlugin_failure_recorded:
  assumes absent: "map_of (plugins m) (cfg_id cfg) = None"
    and reg: "pluginRegistry m (cfg_type cfg) = Some plugin"
    and throws: "fst (initialize cfg plugin) = Some e
         \<or> fst (initialize cfg plugin) = None
           \<and> fst (start (attachHandlers m (snd (initialize cfg plugin)))) = Some e"
  shows "\<exists>msg. (msg = ''Plugin initialization failed: '' @ message e
                \<or> msg = ''Plugin start failed: '' @ message e)
     \<and> fst (startPlugin cfg now m) = Some e
     \<and> getPluginError (cfg_id cfg) (snd (startPlugin cfg now m)) = Some msg
     \<and> (\<forall>c. cfg_id c = cfg_id cfg \<longrightarrow>
            ps_error (buildPluginStatus c (snd (startPlugin cfg now m))) = Some msg)
     \<and> (\<forall>c \<in> set (assistant_plugins (snd (startPlugin cfg now m))).
            cfg_id c = cfg_id cfg \<longrightarrow> cfg_status c = error)
     \<and> map cfg_id (assistant_plugins (snd (startPlugin cfg now m))) = map cfg_id (assistant_plugins m)
     \<and> pluginStatusChanged (snd (startPlugin cfg now m))
         = pluginStatusChanged m @ [(cfg_id cfg, errorStatus cfg msg)]
     \<and> map_of (plugins (snd (startPlugin cfg now m))) (cfg_id cfg) = None"
proof -
  define msg where "msg = (if fst (initialize cfg plugin) = None then ''Plugin start failed: ''
            else ''Plugin initialization failed: '') @ message e"
  define m1 where "m1 = m\<lparr>pluginErrors := (pluginErrors m)(cfg_id cfg := None)\<rparr>"
  have run: "startPlugin cfg now m = (Some e, recordStartFailure msg cfg now m1)"
    unfolding msg_def m1_def using startPlugin_failure[OF absent reg, of e now] throws by simp
  have pl: "plugins (recordStartFailure msg cfg now m1) = plugins m"
    by (simp add: m1_def)
  have er: "pluginErrors (recordStartFailure msg cfg now m1) (cfg_id cfg) = Some msg"
    by simp
  have st: "ps_error (buildPluginStatus c (recordStartFailure msg cfg now m1)) = Some msg"
    if "cfg_id c = cfg_id cfg" for c
    using that absent by (simp add: buildPluginStatus_def Let_def m1_def)
  have db: "cfg_status c = error"
    if "c \<in> set (assistant_plugins (recordStartFailure msg cfg now m1))" "cfg_id c = cfg_id cfg" for c
    using that status_after_update by (simp only: fields_recordStartFailure) blast
  have ids: "map cfg_id (assistant_plugins (recordStartFailure msg cfg now m1))
               = map cfg_id (assistant_plugins m)"
    by (simp add: ids_after_update) (simp add: m1_def updateChannelPluginStatus_def)
  have ev: "pluginStatusChanged (recordStartFailure msg cfg now m1)
              = pluginStatusChanged m @ [(cfg_id cfg, errorStatus cfg msg)]"
    by (simp add: m1_def)
  have which: "msg = ''Plugin initialization failed: '' @ message e
                \<or> msg = ''Plugin start failed: '' @ message e"
    by (simp add: msg_def)
  show ?thesis
    apply (rule exI[of _ msg])
    unfolding run getPluginError_def
    using which er st db ids ev pl absent by simp
qed

lemma keys_clean_new: "keys_clean (newPluginManager registry table)"
  by (simp add: keys_clean_def newPluginManager_def)

lemma keys_cleanI:
  assumes "distinct (map fst (plugins m))"
    and "\<And>i. i \<in> fst ` set (plugins m) \<Longrightarrow> pluginErrors m i = None"
  shows "keys_clean m"
  unfolding keys_clean_def
proof (intro conjI ballI)
  show "distinct (map fst (plugins m))" by fact
next
  fix i assume "i \<in> fst ` set (plugins m)"
  then show "pluginErrors m i = None" by (rule assms(2))
qed

lemma keys_cleanD1: "keys_clean m \<Longrightarrow> distinct (map fst (plugins m))"
  unfolding keys_clean_def by (rule conjunct1)

lemma keys_cleanD2:
  assumes "keys_clean m" and "i \<in> fst ` set (plugins m)"
  shows "pluginErrors m i = None"
proof -
  from assms(1) have "\<forall>i \<in> fst ` set (plugins m). pluginErrors m i = None"
    unfolding keys_clean_def by (rule conjunct2)
  from bspec[OF this assms(2)] show ?thesis .
qed

lemma keys_delete: "fst ` set (AList.delete k al) = fst ` set al - {k}"
  by (induction al) auto

lemma startPlugin_plugins:
  "plugins (snd (startPlugin cfg now m)) = plugins m
   \<or> (map_of (plugins m) (cfg_id cfg) = None
      \<and> (\<exists>p. fst (start p) = None
             \<and> plugins (snd (startPlugin cfg now m)) = AList.update (cfg_id cfg) (snd (start p)) (plugins m))
      \<and> fst (startPlugin cfg now m) = None
      \<and> pluginErrors (snd (startPlugin cfg now m)) = (pluginErrors m)(cfg_id cfg := None))"
  unfolding startPlugin_def Let_def
  by (simp split: option.splits prod.splits) (metis fst_conv snd_conv)

lemma startPlugin_errors_other:
  "i \<noteq> cfg_id cfg \<Longrightarrow> pluginErrors (snd (startPlugin cfg now m)) i = pluginErrors m i"
  unfolding startPlugin_def Let_def
  by (simp split: option.splits prod.splits)

lemma startPlugin_errors_running:
  "map_of (plugins m) (cfg_id cfg) \<noteq> None
     \<Longrightarrow> pluginErrors (snd (startPlugin cfg now m)) (cfg_id cfg) = None"
  unfolding startPlugin_def Let_def
  by simp

lemma keys_clean_start:
  assumes inv: "keys_clean m"
  shows "keys_clean (snd (startPlugin cfg now m))"
proof -
  let ?m' = "snd (startPlugin cfg now m)"
  from inv have d: "distinct (map fst (plugins m))"
    and e: "\<And>i. i \<in> fst ` set (plugins m) \<Longrightarrow> pluginErrors m i = None"
    by (rule keys_cleanD1, rule keys_cleanD2)
  from startPlugin_plugins[of cfg now m] consider
    (same) "plugins ?m' = plugins m"
    | (added) p where "plugins ?m' = AList.update (cfg_id cfg) p (plugins m)"
        "pluginErrors ?m' = (pluginErrors m)(cfg_id cfg := None)"
    by blast
  then show ?thesis
  proof cases
    case same
    have "pluginErrors ?m' i = None" if "i \<in> fst ` set (plugins m)" for i
    proof (cases "i = cfg_id cfg")
      case True
      from that have "map_of (plugins m) i \<noteq> None" by (simp add: map_of_eq_None_iff)
      with True show ?thesis using startPlugin_errors_running by metis
    next
      case False
      then show ?thesis using e[OF that] by (simp add: startPlugin_errors_other)
    qed
    with d same show ?thesis by (intro keys_cleanI) simp_all
  next
    case added
    have "distinct (map fst (plugins ?m'))"
      using d by (simp add: added(1) AList.distinct_update)
    moreover have "pluginErrors ?m' i = None" if "i \<in> fst ` set (plugins ?m')" for i
    proof -
      from that have "i = cfg_id cfg \<or> i \<in> fst ` set (plugins m)"
        by (simp add: added(1) AList.dom_update)
      then show ?thesis using e by (auto simp: added(2))
    qed
    ultimately show ?thesis by (intro keys_cleanI)
  qed
qed

lemma stopPlugin_plugins:
  "(\<exists>p. map_of (plugins m) i = Some p \<and> fst (stop p) \<noteq> None
        \<and> fst (stopPlugin i now m) = fst (stop p)
        \<and> plugins (snd (stopPlugin i now m)) = AList.update i (snd (stop p)) (plugins m))
   \<or> (fst (stopPlugin i now m) = None
      \<and> plugins (snd (stopPlugin i now m)) = AList.delete i (plugins m))"
proof (cases "map_of (plugins m) i")
  case None
  then have "i \<notin> fst ` set (plugins m)" by (simp add: map_of_eq_None_iff)
  then have "AList.delete i (plugins m) = plugins m" by simp
  with None show ?thesis by (simp add: stopPlugin_def)
next
  case (Some p)
  then show ?thesis
    by (cases "stop p") (auto simp: stopPlugin_def split: option.splits)
qed

lemma stopPlugin_errors: "pluginErrors (snd (stopPlugin i now m)) = pluginErrors m"
  unfolding stopPlugin_def by (simp split: option.splits prod.splits)

lemma keys_clean_stop:
  assumes inv: "keys_clean m"
  shows "keys_clean (snd (stopPlugin i now m))"
proof -
  let ?m' = "snd (stopPlugin i now m)"
  from inv have d: "distinct (map fst (plugins m))"
    and e: "\<And>i. i \<in> fst ` set (plugins m) \<Longrightarrow> pluginErrors m i = None"
    by (rule keys_cleanD1, rule keys_cleanD2)
  from stopPlugin_plugins[of m i now] consider
    (kept) p where "map_of (plugins m) i = Some p" "plugins ?m' = AList.update i (snd (stop p)) (plugins m)"
    | (removed) "plugins ?m' = AList.delete i (plugins m)"
    by blast
  then show ?thesis
  proof cases
    case kept
    from kept(1) have "i \<in> fst ` set (plugins m)"
      by (metis map_of_eq_None_iff option.distinct(1))
    then have "fst ` set (plugins ?m') = fst ` set (plugins m)"
      by (auto simp: kept(2) AList.dom_update)
    with d e show ?thesis
      by (intro keys_cleanI) (simp_all add: kept(2) AList.distinct_update stopPlugin_errors)
  next
    case removed
    with d e show ?thesis
      by (intro keys_cleanI) (simp_all add: AList.distinct_delete keys_delete stopPlugin_errors)
  qed
qed

lemma keys_clean_call: "keys_clean m \<Longrightarrow> keys_clean (call m c)"
  by (cases c) (simp_all add: keys_clean_start keys_clean_stop)

lemma keys_clean_after_calls: "keys_clean m \<Longrightarrow> keys_clean (after_calls cs m)"
  unfolding after_calls_def by (induction cs arbitrary: m) (simp_all add: keys_clean_call)

lemma startPlugin_running_noop:
  assumes "keys_clean m" "map_of (plugins m) (cfg_id cfg) \<noteq> None"
  shows "startPlugin cfg now m = (None, m)"
proof -
  from assms(2) have "cfg_id cfg \<in> fst ` set (plugins m)"
    by (simp add: map_of_eq_None_iff)
  with assms(1) have "pluginErrors m (cfg_id cfg) = None" by (rule keys_cleanD2)
  then have "(pluginErrors m)(cfg_id cfg := None) = pluginErrors m" by (simp add: fun_upd_idem)
  then show ?thesis using assms(2) by (simp add: startPlugin_def)
qed

lemma filter_key_distinct:
  "distinct (map fst xs) \<Longrightarrow> length (filter (\<lambda>e. fst e = k) xs) \<le> 1"
proof (induction xs)
  case Nil
  then show ?case by simp
next
  case (Cons x xs)
  show ?case
  proof (cases "fst x = k")
    case True
    with Cons.prems have "k \<notin> fst ` set xs" by auto
    then have "filter (\<lambda>e. fst e = k) xs = []" by (auto simp: filter_empty_conv)
    with True show ?thesis by simp
  next
    case False
    with Cons show ?thesis by simp
  qed
qed

lemma filter_key_delete: "filter (\<lambda>e. fst e = k) (AList.delete k xs) = []"
  by (induction xs) auto

lemma filter_key_update_fresh:
  "k \<notin> fst ` set xs \<Longrightarrow> filter (\<lambda>e. fst e = k) (AList.update k v xs) = [(k, v)]"
  by (induction xs) auto

lemma start_ok_running: "fst (start p) = None \<Longrightarrow> p_status (snd (start p)) = running"
  by (auto simp: start_def Let_def setStatus_def split: if_splits option.splits)

lemma startPlugin_success:
  assumes absent: "map_of (plugins m) (cfg_id cfg) = None"
    and ok: "fst (startPlugin cfg now m) = None"
  shows "\<exists>p. fst (start p) = None
           \<and> plugins (snd (startPlugin cfg now m)) = AList.update (cfg_id cfg) (snd (start p)) (plugins m)"
proof (cases "pluginRegistry m (cfg_type cfg)")
  case None
  with absent ok show ?thesis by (simp add: startPlugin_def Let_def)
next
  case (Some plugin)
  obtain r1 p1 where i: "initialize cfg plugin = (r1, p1)" by (cases "initialize cfg plugin")
  obtain r2 p2 where s: "start (attachHandlers m p1) = (r2, p2)"
    by (cases "start (attachHandlers m p1)")
  from absent ok Some i s have r1: "r1 = None"
    by (cases r1) (simp_all add: startPlugin_def Let_def)
  from absent ok Some i s r1 have r2: "r2 = None"
    by (cases r2) (simp_all add: startPlugin_def Let_def)
  from absent Some i s r1 r2
  have "plugins (snd (startPlugin cfg now m)) = AList.update (cfg_id cfg) p2 (plugins m)"
    by (simp add: startPlugin_def Let_def)
  with s r2 show ?thesis by (intro exI[of _ "attachHandlers m p1"]) simp
qed

lemma stopPlugin_removed:
  assumes "fst (stopPlugin i now m) = None"
  shows "plugins (snd (stopPlugin i now m)) = AList.delete i (plugins m)"
  using stopPlugin_plugins[of m i now] assms by auto

text \<open>
  Claim C8, as the code has it.  After any sequence of \<open>startPlugin\<close> and
  \<open>stopPlugin\<close> calls on a new manager, for every plugin id: the map of running
  instances holds at most one instance for the id; \<open>startPlugin\<close> for an id that is in
  the map returns without changing anything; a \<open>stopPlugin\<close> that returns without
  throwing leaves no instance for the id in the map; and when a \<open>stopPlugin\<close> and a
  following \<open>startPlugin\<close> for the same id both return without throwing, the map
  holds exactly one instance for the id, and its status is \<open>running\<close>.
\<close>

theorem one_runtime_per_plugin:
  assumes m: "m = after_calls cs (newPluginManager registry table)"
  shows "length (instances_of pid m) \<le> 1
    \<and> (map_of (plugins m) (cfg_id cfg) \<noteq> None \<longrightarrow> startPlugin cfg now m = (None, m))
    \<and> (fst (stopPlugin pid now m) = None \<longrightarrow> instances_of pid (snd (stopPlugin pid now m)) = [])
    \<and> (fst (stopPlugin (cfg_id cfg) now m) = None
        \<and> fst (startPlugin cfg now' (snd (stopPlugin (cfg_id cfg) now m))) = None
       \<longrightarrow> (\<exists>p. instances_of (cfg_id cfg)
                   (snd (startPlugin cfg now' (snd (stopPlugin (cfg_id cfg) now m)))) = [p]
                \<and> p_status p = running))"
proof -
  have inv: "keys_clean m"
    unfolding m by (rule keys_clean_after_calls) (rule keys_clean_new)
  have a: "length (instances_of pid m) \<le> 1"
    using filter_key_distinct[OF keys_cleanD1[OF inv], of pid] by (simp add: instances_of_def)
  have b: "startPlugin cfg now m = (None, m)" if "map_of (plugins m) (cfg_id cfg) \<noteq> None"
    using startPlugin_running_noop[OF inv that] .
  have c: "instances_of pid (snd (stopPlugin pid now m)) = []" if "fst (stopPlugin pid now m) = None"
    by (simp add: instances_of_def stopPlugin_removed[OF that] filter_key_delete)
  have d: "\<exists>p. instances_of (cfg_id cfg)
                   (snd (startPlugin cfg now' (snd (stopPlugin (cfg_id cfg) now m)))) = [p]
                \<and> p_status p = running"
    if s1: "fst (stopPlugin (cfg_id cfg) now m) = None"
      and s2: "fst (startPlugin cfg now' (snd (stopPlugin (cfg_id cfg) now m))) = None"
  proof -
    let ?m1 = "snd (stopPlugin (cfg_id cfg) now m)"
    have gone: "cfg_id cfg \<notin> fst ` set (plugins ?m1)"
      by (simp add: stopPlugin_removed[OF s1] keys_delete)
    then have "map_of (plugins ?m1) (cfg_id cfg) = None" by (simp add: map_of_eq_None_iff)
    from startPlugin_success[OF this s2] obtain p where
      ok: "fst (start p) = None"
      and pl: "plugins (snd (startPlugin cfg now' ?m1)) = AList.update (cfg_id cfg) (snd (start p)) (plugins ?m1)"
      by blast
    have "instances_of (cfg_id cfg) (snd (startPlugin cfg now' ?m1)) = [snd (start p)]"
      by (simp add: instances_of_def pl filter_key_update_fresh[OF gone])
    with start_ok_running[OF ok] show ?thesis by blast
  qed
  from a b c d show ?thesis by blast
qed

text \<open>The definitions that evaluate a concrete manager.\<close>

lemmas plugin_eval =
  startPlugin_def stopPlugin_def initialize_def start_def stop_def attachHandlers_def
  emitStatusChange_def updateChannelPluginStatus_def buildPluginStatus_def getChannelPlugin_def
  setStatus_def recordStartFailure_def emitStatusChangeWithError_def errorStatus_def has_token_def
  newPluginManager_def after_calls_def instances_of_def getPluginError_def getPluginStatuses_def
  okPlugin_def badTokenPlugin_def stuckPlugin_def cfgT_def Let_def

theorem lifecycle_guards_witness:
  "p_status okPlugin \<noteq> ready \<and> p_status okPlugin \<noteq> stopped
   \<and> start okPlugin = (Some (Error ''Cannot start plugin in status: created''), okPlugin)
   \<and> platform (snd (start okPlugin)) = 0
   \<and> p_status okPlugin \<noteq> running \<and> p_status okPlugin \<noteq> error
   \<and> stop okPlugin = (None, okPlugin)"
proof -
  have s: "p_status okPlugin = created" by (simp add: okPlugin_def)
  from lifecycle_guards [of okPlugin] s show ?thesis by (simp add: okPlugin_def)
qed

lemma mgrBad_facts:
  "map_of (plugins mgrBad) (cfg_id cfgT) = None"
  "pluginRegistry mgrBad (cfg_type cfgT) = Some badTokenPlugin"
  "fst (initialize cfgT badTokenPlugin) = None"
  "fst (start (attachHandlers mgrBad (snd (initialize cfgT badTokenPlugin)))) = Some (Error ''401 Unauthorized'')"
  by (simp_all add: mgrBad_def plugin_eval)

theorem startPlugin_failure_recorded_witness:
  "map_of (plugins mgrBad) (cfg_id cfgT) = None
   \<and> pluginRegistry mgrBad (cfg_type cfgT) = Some badTokenPlugin
   \<and> fst (initialize cfgT badTokenPlugin) = None
   \<and> fst (start (attachHandlers mgrBad (snd (initialize cfgT badTokenPlugin))))
        = Some (Error ''401 Unauthorized'')
   \<and> fst (startPlugin cfgT 5 mgrBad) = Some (Error ''401 Unauthorized'')
   \<and> getPluginError ''telegram_default'' (snd (startPlugin cfgT 5 mgrBad))
        = Some ''Plugin start failed: 401 Unauthorized''
   \<and> map ps_error (getPluginStatuses (snd (startPlugin cfgT 5 mgrBad)))
        = [Some ''Plugin start failed: 401 Unauthorized'']
   \<and> map cfg_status (assistant_plugins (snd (startPlugin cfgT 5 mgrBad))) = [error]
   \<and> map (\<lambda>ev. (fst ev, ps_status (snd ev), ps_error (snd ev)))
          (pluginStatusChanged (snd (startPlugin cfgT 5 mgrBad)))
        = [(''telegram_default'', error, Some ''Plugin start failed: 401 Unauthorized'')]
   \<and> map_of (plugins (snd (startPlugin cfgT 5 mgrBad))) ''telegram_default'' = None"
  using startPlugin_failure_recorded [OF mgrBad_facts(1,2), of "Error ''401 Unauthorized''" 5]
    mgrBad_facts
  by (simp add: mgrBad_def plugin_eval)

lemma mgrOk_running: "map_of (plugins mgrOk) (cfg_id cfgT) \<noteq> None"
  by (simp add: mgrOk_def plugin_eval)

lemma mgrOk_stop: "fst (stopPlugin (cfg_id cfgT) 2 mgrOk) = None"
  by (simp add: mgrOk_def plugin_eval)

lemma mgrOk_restart:
  "fst (startPlugin cfgT 3 (snd (stopPlugin (cfg_id cfgT) 2 mgrOk))) = None"
  by (simp add: mgrOk_def plugin_eval)

theorem one_runtime_per_plugin_witness:
  "length (instances_of (cfg_id cfgT) mgrOk) \<le> 1
   \<and> map_of (plugins mgrOk) (cfg_id cfgT) \<noteq> None
   \<and> startPlugin cfgT 2 mgrOk = (None, mgrOk)
   \<and> fst (stopPlugin (cfg_id cfgT) 2 mgrOk) = None
   \<and> instances_of (cfg_id cfgT) (snd (stopPlugin (cfg_id cfgT) 2 mgrOk)) = []
   \<and> fst (startPlugin cfgT 3 (snd (stopPlugin (cfg_id cfgT) 2 mgrOk))) = None
   \<and> map p_status (instances_of (cfg_id cfgT)
         (snd (startPlugin cfgT 3 (snd (stopPlugin (cfg_id cfgT) 2 mgrOk))))) = [running]"
  using one_runtime_per_plugin [OF mgrOk_def, of "cfg_id cfgT" cfgT 2 3]
    mgrOk_running mgrOk_stop mgrOk_restart
  by auto

text \<open>
  Claim C8 as stated fails where the plugin's \<open>stop()\<close> throws: \<open>stopPlugin\<close>
  rethrows before it reaches the removal, the instance stays in the map with status
  \<open>error\<close>, and a restart with the same id is then a no-op that leaves that instance,
  which is not running.
\<close>

theorem stopPlugin_keeps_failed_runtime:
  "map p_status (instances_of ''telegram_default'' mgrStuck) = [running]
   \<and> fst (stopPlugin ''telegram_default'' 2 mgrStuck) = Some (Error ''network down'')
   \<and> map p_status (instances_of ''telegram_default'' (snd (stopPlugin ''telegram_default'' 2 mgrStuck)))
        = [error]
   \<and> startPlugin cfgT 3 (snd (stopPlugin ''telegram_default'' 2 mgrStuck))
        = (None, snd (stopPlugin ''telegram_default'' 2 mgrStuck))"
proof -
  have e: "map p_status (instances_of ''telegram_default'' mgrStuck) = [running]
   \<and> fst (stopPlugin ''telegram_default'' 2 mgrStuck) = Some (Error ''network down'')
   \<and> map p_status (instances_of ''telegram_default'' (snd (stopPlugin ''telegram_default'' 2 mgrStuck)))
        = [error]"
    by (simp add: mgrStuck_def plugin_eval)
  have k: "keys_clean (snd (stopPlugin ''telegram_default'' 2 mgrStuck))"
    unfolding mgrStuck_def
    by (intro keys_clean_stop keys_clean_after_calls keys_clean_new)
  have r: "map_of (plugins (snd (stopPlugin ''telegram_default'' 2 mgrStuck))) (cfg_id cfgT) \<noteq> None"
    by (simp add: mgrStuck_def plugin_eval)
  from e startPlugin_running_noop[OF k r] show ?thesis by simp
qed

section \<open>Properties of the session manager\<close>

lemma sessions_invI:
  assumes "distinct (map fst (activeSessions s))"
    and "distinct (map session_id (assistant_sessions s))"
    and "\<And>e. e \<in> set (activeSessions s) \<Longrightarrow> userId (snd e) = fst e"
    and "\<And>row. row \<in> set (assistant_sessions s) \<Longrightarrow>
           \<exists>c. map_of (activeSessions s) (userId row) = Some c \<and> session_id c = session_id row"
  shows "sessions_inv s"
  unfolding sessions_inv_def
proof (intro conjI ballI)
  show "distinct (map fst (activeSessions s))" by fact
  show "distinct (map session_id (assistant_sessions s))" by fact
next
  fix e assume "e \<in> set (activeSessions s)"
  then show "userId (snd e) = fst e" by (rule assms(3))
next
  fix row assume "row \<in> set (assistant_sessions s)"
  then show "\<exists>c. map_of (activeSessions s) (userId row) = Some c \<and> session_id c = session_id row"
    by (rule assms(4))
qed

lemma sessions_invD1: "sessions_inv s \<Longrightarrow> distinct (map fst (activeSessions s))"
  unfolding sessions_inv_def by (rule conjunct1)

lemma sessions_invD2: "sessions_inv s \<Longrightarrow> distinct (map session_id (assistant_sessions s))"
  unfolding sessions_inv_def by (elim conjE)

lemma sessions_invD3:
  assumes "sessions_inv s" "e \<in> set (activeSessions s)"
  shows "userId (snd e) = fst e"
proof -
  from assms(1) have "\<forall>e \<in> set (activeSessions s). userId (snd e) = fst e"
    unfolding sessions_inv_def by (elim conjE)
  from bspec[OF this assms(2)] show ?thesis .
qed

lemma sessions_invD4:
  assumes "sessions_inv s" "row \<in> set (assistant_sessions s)"
  shows "\<exists>c. map_of (activeSessions s) (userId row) = Some c \<and> session_id c = session_id row"
proof -
  from assms(1) have "\<forall>row \<in> set (assistant_sessions s).
           \<exists>c. map_of (activeSessions s) (userId row) = Some c \<and> session_id c = session_id row"
    unfolding sessions_inv_def by (elim conjE)
  from bspec[OF this assms(2)] show ?thesis .
qed

lemma set_deleteChannelSession:
  "row \<in> set (deleteChannelSession sid t) \<longleftrightarrow> row \<in> set t \<and> session_id row \<noteq> sid"
  by (simp add: deleteChannelSession_def)

lemma distinct_deleteChannelSession:
  "distinct (map session_id t) \<Longrightarrow> distinct (map session_id (deleteChannelSession sid t))"
  by (simp add: deleteChannelSession_def distinct_map_filter)

lemma ids_map_if:
  "(\<And>x. f (g x) = f x) \<Longrightarrow> map f (map (\<lambda>x. if P x then g x else x) xs) = map f xs"
  by (induction xs) auto

lemma distinct_upsertChannelSession:
  assumes "distinct (map session_id t)"
  shows "distinct (map session_id (upsertChannelSession a now ses t))"
proof -
  have "map session_id (map (\<lambda>row. if session_id row = session_id ses
                        then row\<lparr>agentType := agentType ses,
                                 conversationId := conversationId ses,
                                 workspace := workspace ses,
                                 lastActivity := (if lastActivity ses = 0 then now
                                                  else lastActivity ses)\<rparr>
                        else row) t) = map session_id t"
    by (rule ids_map_if) simp
  with assms show ?thesis
    by (simp add: upsertChannelSession_def del: map_map)
qed

lemma row_upsertChannelSession:
  assumes "row \<in> set (upsertChannelSession a now ses t)"
  shows "(\<exists>r0 \<in> set t. session_id r0 = session_id row \<and> userId r0 = userId row)
         \<or> (session_id row = session_id ses \<and> userId row = userId ses)"
proof (cases "a \<and> session_id ses \<in> set (map session_id t)")
  case True
  with assms have "row \<in> set (map (\<lambda>row. if session_id row = session_id ses
                        then row\<lparr>agentType := agentType ses,
                                 conversationId := conversationId ses,
                                 workspace := workspace ses,
                                 lastActivity := (if lastActivity ses = 0 then now
                                                  else lastActivity ses)\<rparr>
                        else row) t)"
    by (simp add: upsertChannelSession_def del: set_map)
  from in_map_if[OF this] consider
    (hit) x where "x \<in> set t" "row = x\<lparr>agentType := agentType ses,
                                 conversationId := conversationId ses,
                                 workspace := workspace ses,
                                 lastActivity := (if lastActivity ses = 0 then now
                                                  else lastActivity ses)\<rparr>"
    | (miss) "row \<in> set t"
    by blast
  then show ?thesis
  proof cases
    case hit
    then have "session_id x = session_id row \<and> userId x = userId row" by simp
    with hit(1) show ?thesis by blast
  next
    case miss
    then show ?thesis by blast
  qed
next
  case False
  with assms have "row \<in> set t \<or> (a \<and> row = ses\<lparr>createdAt := (if createdAt ses = 0 then now else createdAt ses),
                             lastActivity := (if lastActivity ses = 0 then now
                                              else lastActivity ses)\<rparr>)"
    by (auto simp: upsertChannelSession_def split: if_splits)
  then show ?thesis by auto
qed

lemma entry_update: "e \<in> set (AList.update k v xs) \<Longrightarrow> e = (k, v) \<or> e \<in> set xs"
  by (induction xs) (auto split: if_splits)

lemma entry_delete: "e \<in> set (AList.delete k xs) \<longleftrightarrow> e \<in> set xs \<and> fst e \<noteq> k"
  by (auto simp: AList.delete_eq)

lemma inv_create:
  assumes inv: "sessions_inv s"
  shows "sessions_inv (snd (createSessionWithConversation u conv agent ws now newId accepted s))"
proof -
  define t1 where "t1 = (case map_of (activeSessions s) (user_id u) of
                  Some ex \<Rightarrow> deleteChannelSession (session_id ex) (assistant_sessions s)
                | None \<Rightarrow> assistant_sessions s)"
  define ses where "ses = \<lparr>session_id = newId, userId = user_id u, agentType = agent,
                     conversationId = Some conv, workspace = ws,
                     createdAt = now, lastActivity = now\<rparr>"
  define s' where "s' = snd (createSessionWithConversation u conv agent ws now newId accepted s)"
  have tab: "assistant_sessions s' = upsertChannelSession accepted now ses t1"
    and cache: "activeSessions s' = AList.update (user_id u) ses (activeSessions s)"
    unfolding s'_def createSessionWithConversation_def t1_def ses_def
    by (simp_all add: Let_def split: option.splits)
  have sub: "row \<in> set (assistant_sessions s)" if "row \<in> set t1" for row
    using that unfolding t1_def by (auto simp: set_deleteChannelSession split: option.splits)
  have d1: "distinct (map session_id t1)"
    unfolding t1_def using sessions_invD2[OF inv]
    by (simp add: distinct_deleteChannelSession split: option.splits)
  have none: "userId row \<noteq> user_id u" if "row \<in> set t1" for row
  proof
    assume eq: "userId row = user_id u"
    from sessions_invD4[OF inv sub[OF that]] obtain c where
      c: "map_of (activeSessions s) (userId row) = Some c" "session_id c = session_id row" by blast
    with eq have "t1 = deleteChannelSession (session_id c) (assistant_sessions s)"
      by (simp add: t1_def)
    with that c(2) show False by (simp add: set_deleteChannelSession)
  qed
  have "sessions_inv s'"
  proof (rule sessions_invI)
    show "distinct (map fst (activeSessions s'))"
      using sessions_invD1[OF inv] by (simp add: cache AList.distinct_update)
    show "distinct (map session_id (assistant_sessions s'))"
      unfolding tab by (rule distinct_upsertChannelSession[OF d1])
    show "userId (snd e) = fst e" if "e \<in> set (activeSessions s')" for e
    proof -
      from that entry_update have "e = (user_id u, ses) \<or> e \<in> set (activeSessions s)"
        unfolding cache by fast
      then show ?thesis using sessions_invD3[OF inv] by (auto simp: ses_def)
    qed
    show "\<exists>c. map_of (activeSessions s') (userId row) = Some c \<and> session_id c = session_id row"
      if "row \<in> set (assistant_sessions s')" for row
    proof -
      from that have "row \<in> set (upsertChannelSession accepted now ses t1)" by (simp add: tab)
      from row_upsertChannelSession[OF this] consider
        (old) r0 where "r0 \<in> set t1" "session_id r0 = session_id row" "userId r0 = userId row"
        | (new) "session_id row = session_id ses" "userId row = userId ses"
        by blast
      then show ?thesis
      proof cases
        case old
        from sessions_invD4[OF inv sub[OF old(1)]] obtain c where
          "map_of (activeSessions s) (userId r0) = Some c" "session_id c = session_id r0" by blast
        with old none[OF old(1)] show ?thesis by (simp add: cache AList.update_conv')
      next
        case new
        then show ?thesis by (simp add: cache AList.update_conv' ses_def)
      qed
    qed
  qed
  then show ?thesis by (simp add: s'_def)
qed

lemma inv_touch:
  assumes inv: "sessions_inv s"
    and old: "map_of (activeSessions s) k = Some old"
    and same: "session_id ses = session_id old" "userId ses = userId old"
  shows "sessions_inv (s\<lparr>activeSessions := AList.update k ses (activeSessions s),
                         assistant_sessions := upsertChannelSession accepted now ses (assistant_sessions s)\<rparr>)"
proof (rule sessions_invI)
  let ?s' = "s\<lparr>activeSessions := AList.update k ses (activeSessions s),
                assistant_sessions := upsertChannelSession accepted now ses (assistant_sessions s)\<rparr>"
  from map_of_SomeD[OF old] have mem: "(k, old) \<in> set (activeSessions s)" .
  from sessions_invD3[OF inv mem] have uk: "userId old = k" by simp
  show "distinct (map fst (activeSessions ?s'))"
    using sessions_invD1[OF inv] by (simp add: AList.distinct_update)
  show "distinct (map session_id (assistant_sessions ?s'))"
    using distinct_upsertChannelSession[OF sessions_invD2[OF inv]] by simp
  show "userId (snd e) = fst e" if "e \<in> set (activeSessions ?s')" for e
  proof -
    from that entry_update have "e = (k, ses) \<or> e \<in> set (activeSessions s)" by fastforce
    then show ?thesis using sessions_invD3[OF inv] same uk by auto
  qed
  show "\<exists>c. map_of (activeSessions ?s') (userId row) = Some c \<and> session_id c = session_id row"
    if "row \<in> set (assistant_sessions ?s')" for row
  proof -
    from that have "row \<in> set (upsertChannelSession accepted now ses (assistant_sessions s))" by simp
    from row_upsertChannelSession[OF this] consider
      (old) r0 where "r0 \<in> set (assistant_sessions s)" "session_id r0 = session_id row" "userId r0 = userId row"
      | (new) "session_id row = session_id ses" "userId row = userId ses"
      by blast
    then show ?thesis
    proof cases
      case old
      from sessions_invD4[OF inv old(1)] obtain c where
        c: "map_of (activeSessions s) (userId r0) = Some c" "session_id c = session_id r0" by blast
      show ?thesis
      proof (cases "userId r0 = k")
        case True
        with c \<open>map_of (activeSessions s) k = Some old\<close> have "c = old" by simp
        with c old True same show ?thesis by (simp add: AList.update_conv')
      next
        case False
        with c old show ?thesis by (simp add: AList.update_conv')
      qed
    next
      case new
      with same uk show ?thesis by (simp add: AList.update_conv')
    qed
  qed
qed

lemma inv_delete:
  assumes inv: "sessions_inv s"
    and old: "map_of (activeSessions s) k = Some ses"
  shows "sessions_inv (deleteFromDatabaseAndCache k ses s)"
proof (rule sessions_invI)
  let ?s' = "deleteFromDatabaseAndCache k ses s"
  have tab: "assistant_sessions ?s' = deleteChannelSession (session_id ses) (assistant_sessions s)"
    and cache: "activeSessions ?s' = AList.delete k (activeSessions s)"
    by (simp_all add: deleteFromDatabaseAndCache_def)
  show "distinct (map fst (activeSessions ?s'))"
    using sessions_invD1[OF inv] by (simp add: cache AList.distinct_delete)
  show "distinct (map session_id (assistant_sessions ?s'))"
    using sessions_invD2[OF inv] by (simp add: tab distinct_deleteChannelSession)
  show "userId (snd e) = fst e" if "e \<in> set (activeSessions ?s')" for e
    using that sessions_invD3[OF inv] by (simp add: cache entry_delete)
  show "\<exists>c. map_of (activeSessions ?s') (userId row) = Some c \<and> session_id c = session_id row"
    if "row \<in> set (assistant_sessions ?s')" for row
  proof -
    from that have r: "row \<in> set (assistant_sessions s)" "session_id row \<noteq> session_id ses"
      by (simp_all add: tab set_deleteChannelSession)
    from sessions_invD4[OF inv r(1)] obtain c where
      c: "map_of (activeSessions s) (userId row) = Some c" "session_id c = session_id row" by blast
    with old r(2) have "userId row \<noteq> k" by auto
    with c show ?thesis by (simp add: cache AList.delete_conv')
  qed
qed

lemma entry_lookup:
  "sessions_inv s \<Longrightarrow> e \<in> set (activeSessions s) \<Longrightarrow> map_of (activeSessions s) (fst e) = Some (snd e)"
  using map_of_is_SomeI[OF sessions_invD1, of s "fst e" "snd e"] by simp

lemma inv_clearSession: "sessions_inv s \<Longrightarrow> sessions_inv (snd (clearSession uid s))"
  by (cases "map_of (activeSessions s) uid") (simp_all add: clearSession_def inv_delete)

lemma inv_clearSessionByConversationId:
  assumes inv: "sessions_inv s"
  shows "sessions_inv (snd (clearSessionByConversationId conv s))"
proof (cases "find (\<lambda>e. conversationId (snd e) = Some conv) (activeSessions s)")
  case None
  with inv show ?thesis by (simp add: clearSessionByConversationId_def)
next
  case (Some e)
  from find_Some_D[OF Some] have "e \<in> set (activeSessions s)" by simp
  from inv_delete[OF inv entry_lookup[OF inv this]] inv Some
  show ?thesis by (simp add: clearSessionByConversationId_def)
qed

lemma inv_sweep:
  assumes "sessions_inv (snd acc)" "distinct (map fst es)" "set es \<subseteq> set (activeSessions (snd acc))"
  shows "sessions_inv (snd (fold (\<lambda>e acc. if now - lastActivity (snd e) > maxAgeMs
                    then (fst acc + 1, deleteFromDatabaseAndCache (fst e) (snd e) (snd acc))
                    else acc) es acc))"
  using assms
proof (induction es arbitrary: acc)
  case Nil
  then show ?case by simp
next
  case (Cons e es)
  show ?case
  proof (cases "now - lastActivity (snd e) > maxAgeMs")
    case True
    let ?acc' = "(fst acc + 1, deleteFromDatabaseAndCache (fst e) (snd e) (snd acc))"
    from Cons.prems have mem: "e \<in> set (activeSessions (snd acc))" by simp
    have i: "sessions_inv (snd ?acc')"
      using inv_delete[OF Cons.prems(1) entry_lookup[OF Cons.prems(1) mem]] by simp
    have d: "distinct (map fst es)" using Cons.prems(2) by simp
    have sub: "set es \<subseteq> set (activeSessions (snd ?acc'))"
    proof
      fix x assume x: "x \<in> set es"
      with Cons.prems(2) have "fst x \<noteq> fst e" by (auto simp: image_iff)
      moreover from x Cons.prems(3) have "x \<in> set (activeSessions (snd acc))" by auto
      ultimately show "x \<in> set (activeSessions (snd ?acc'))"
        by (simp add: deleteFromDatabaseAndCache_def entry_delete)
    qed
    from Cons.IH[OF i d sub] True show ?thesis by simp
  next
    case False
    from Cons.prems have "set es \<subseteq> set (activeSessions (snd acc))" "distinct (map fst es)" by simp_all
    from Cons.IH[OF Cons.prems(1) this(2) this(1)] False show ?thesis by simp
  qed
qed

lemma inv_cleanupStaleSessions:
  "sessions_inv s \<Longrightarrow> sessions_inv (snd (cleanupStaleSessions maxAgeMs now s))"
  unfolding cleanupStaleSessions_def
  by (rule inv_sweep) (simp_all add: sessions_invD1)

lemma inv_updateSessionActivity:
  "sessions_inv s \<Longrightarrow> sessions_inv (updateSessionActivity uid now accepted s)"
  by (cases "map_of (activeSessions s) uid")
     (simp_all add: updateSessionActivity_def Let_def inv_touch)

lemma inv_updateSessionConversation:
  assumes inv: "sessions_inv s"
  shows "sessions_inv (snd (updateSessionConversation sid conv now accepted s))"
proof (cases "find (\<lambda>e. session_id (snd e) = sid) (activeSessions s)")
  case None
  with inv show ?thesis by (simp add: updateSessionConversation_def)
next
  case (Some e)
  from find_Some_D[OF Some] have "e \<in> set (activeSessions s)" by simp
  from inv_touch[OF inv entry_lookup[OF inv this],
      of "(snd e)\<lparr>conversationId := Some conv, lastActivity := now\<rparr>" accepted now] Some
  show ?thesis by (simp add: updateSessionConversation_def Let_def)
qed

lemma inv_session_call: "sessions_inv s \<Longrightarrow> sessions_inv (session_call s c)"
  by (cases c)
     (simp_all add: createSession_def inv_create inv_updateSessionConversation
        inv_updateSessionActivity inv_clearSession inv_clearSessionByConversationId
        inv_cleanupStaleSessions)

lemma inv_after_session_calls: "sessions_inv s \<Longrightarrow> sessions_inv (after_session_calls cs s)"
  unfolding after_session_calls_def by (induction cs arbitrary: s) (simp_all add: inv_session_call)

lemma load_keys_distinct:
  "distinct (map fst c) \<Longrightarrow>
   distinct (map fst (fold (\<lambda>session cache. AList.update (userId session) session cache) rows c))"
  by (induction rows arbitrary: c) (simp_all add: AList.distinct_update)

lemma load_entries:
  "e \<in> set (fold (\<lambda>session cache. AList.update (userId session) session cache) rows c)
     \<Longrightarrow> e \<in> set c \<or> (snd e \<in> set rows \<and> fst e = userId (snd e))"
proof (induction rows arbitrary: c)
  case Nil
  then show ?case by simp
next
  case (Cons r rows)
  from Cons.IH[of "AList.update (userId r) r c"] Cons.prems
  have "e \<in> set (AList.update (userId r) r c) \<or> (snd e \<in> set rows \<and> fst e = userId (snd e))"
    by simp
  then show ?case using entry_update[of e "userId r" r c] by auto
qed

lemma load_keys:
  "fst ` set (fold (\<lambda>session cache. AList.update (userId session) session cache) rows c)
     = fst ` set c \<union> userId ` set rows"
  by (induction rows arbitrary: c) (auto simp: AList.dom_update)

lemma filter_le1_unique:
  assumes "length (filter P xs) \<le> 1" "x \<in> set xs" "y \<in> set xs" "P x" "P y"
  shows "x = y"
proof -
  from assms have x: "x \<in> set (filter P xs)" and y: "y \<in> set (filter P xs)" by simp_all
  show ?thesis
  proof (cases "filter P xs")
    case Nil
    with x show ?thesis by simp
  next
    case (Cons z zs)
    with assms(1) have "zs = []" by simp
    with Cons x y show ?thesis by simp
  qed
qed

lemma inv_new:
  assumes ids: "distinct (map session_id table)"
    and one: "\<And>u. length (filter (\<lambda>row. userId row = u) table) \<le> 1"
  shows "sessions_inv (newSessionManager table)"
proof (rule sessions_invI)
  let ?rows = "getChannelSessions table"
  let ?cache = "fold (\<lambda>session cache. AList.update (userId session) session cache) ?rows []"
  have rows: "set ?rows = set table" by (simp add: getChannelSessions_def)
  have tab: "assistant_sessions (newSessionManager table) = table"
    and cache: "activeSessions (newSessionManager table) = ?cache"
    by (simp_all add: newSessionManager_def loadActiveSessions_def)
  show "distinct (map fst (activeSessions (newSessionManager table)))"
    unfolding cache by (rule load_keys_distinct) simp
  show "distinct (map session_id (assistant_sessions (newSessionManager table)))"
    unfolding tab by (rule ids)
  show "userId (snd e) = fst e" if "e \<in> set (activeSessions (newSessionManager table))" for e
    using load_entries[of e ?rows "[]"] that unfolding cache by simp
  show "\<exists>c. map_of (activeSessions (newSessionManager table)) (userId row) = Some c
             \<and> session_id c = session_id row"
    if "row \<in> set (assistant_sessions (newSessionManager table))" for row
  proof -
    from that have r: "row \<in> set table" by (simp add: tab)
    then have "userId row \<in> fst ` set ?cache" by (simp add: load_keys rows)
    then obtain c where c: "map_of ?cache (userId row) = Some c"
      by (meson map_of_eq_None_iff not_Some_eq)
    from load_entries[OF map_of_SomeD[OF c]] have "c \<in> set table" "userId c = userId row"
      by (simp_all add: rows)
    from filter_le1_unique[OF one[of "userId row"] this(1) r] this(2) have "c = row" by simp
    with c show ?thesis by (simp add: cache)
  qed
qed

lemma filter_eq_distinct:
  "distinct (map f xs) \<Longrightarrow> length (filter (\<lambda>x. f x = k) xs) \<le> 1"
proof (induction xs)
  case Nil
  then show ?case by simp
next
  case (Cons x xs)
  show ?case
  proof (cases "f x = k")
    case True
    with Cons.prems have "k \<notin> f ` set xs" by auto
    then have "filter (\<lambda>x. f x = k) xs = []" by (auto simp: filter_empty_conv)
    with True show ?thesis by simp
  next
    case False
    with Cons show ?thesis by simp
  qed
qed

lemma length_filter_mono:
  "(\<And>x. x \<in> set xs \<Longrightarrow> P x \<Longrightarrow> Q x) \<Longrightarrow> length (filter P xs) \<le> length (filter Q xs)"
  by (induction xs) auto

lemma inv_one_row:
  assumes inv: "sessions_inv s"
  shows "length (filter (\<lambda>row. userId row = u) (assistant_sessions s)) \<le> 1"
proof (cases "map_of (activeSessions s) u")
  case None
  have "\<not> (userId row = u)" if "row \<in> set (assistant_sessions s)" for row
    using sessions_invD4[OF inv that] None by auto
  then have "filter (\<lambda>row. userId row = u) (assistant_sessions s) = []"
    by (simp add: filter_empty_conv)
  then show ?thesis by simp
next
  case (Some c)
  have "session_id row = session_id c" if "row \<in> set (assistant_sessions s)" "userId row = u" for row
    using sessions_invD4[OF inv that(1)] Some that(2) by auto
  then have "length (filter (\<lambda>row. userId row = u) (assistant_sessions s))
      \<le> length (filter (\<lambda>row. session_id row = session_id c) (assistant_sessions s))"
    by (rule length_filter_mono)
  also have "\<dots> \<le> 1" by (rule filter_eq_distinct[OF sessions_invD2[OF inv]])
  finally show ?thesis .
qed

lemma inv_one_entry:
  assumes inv: "sessions_inv s"
  shows "length (filter (\<lambda>e. userId (snd e) = u) (activeSessions s)) \<le> 1"
proof -
  have "filter (\<lambda>e. userId (snd e) = u) (activeSessions s) = filter (\<lambda>e. fst e = u) (activeSessions s)"
    by (rule filter_cong) (simp_all add: sessions_invD3[OF inv])
  with filter_eq_distinct[OF sessions_invD1[OF inv], of u] show ?thesis by simp
qed

lemma create_replaces:
  assumes inv: "sessions_inv s"
    and fresh: "newId \<notin> set (map session_id (assistant_sessions s))"
  shows "createSessionWithConversation usr conv agent ws now newId True s
     = (\<lparr>session_id = newId, userId = user_id usr, agentType = agent,
         conversationId = Some conv, workspace = ws, createdAt = now, lastActivity = now\<rparr>,
        \<lparr>activeSessions = AList.update (user_id usr)
            \<lparr>session_id = newId, userId = user_id usr, agentType = agent,
             conversationId = Some conv, workspace = ws, createdAt = now, lastActivity = now\<rparr>
            (activeSessions s),
         assistant_sessions =
           (case map_of (activeSessions s) (user_id usr) of
              Some old \<Rightarrow> deleteChannelSession (session_id old) (assistant_sessions s)
            | None \<Rightarrow> assistant_sessions s)
           @ [\<lparr>session_id = newId, userId = user_id usr, agentType = agent,
               conversationId = Some conv, workspace = ws, createdAt = now, lastActivity = now\<rparr>]\<rparr>)"
    (is "_ = (?ses, ?s')")
    and "filter (\<lambda>row. userId row = user_id usr)
           (assistant_sessions (snd (createSessionWithConversation usr conv agent ws now newId True s)))
         = [fst (createSessionWithConversation usr conv agent ws now newId True s)]"
    and "row \<in> set (assistant_sessions s) \<Longrightarrow> userId row = user_id usr
         \<Longrightarrow> row \<notin> set (assistant_sessions (snd (createSessionWithConversation usr conv agent ws now newId True s)))"
proof -
  define t1 where "t1 = (case map_of (activeSessions s) (user_id usr) of
                  Some ex \<Rightarrow> deleteChannelSession (session_id ex) (assistant_sessions s)
                | None \<Rightarrow> assistant_sessions s)"
  have sub: "r \<in> set (assistant_sessions s)" if "r \<in> set t1" for r
    using that unfolding t1_def by (auto simp: set_deleteChannelSession split: option.splits)
  have none: "userId r \<noteq> user_id usr" if "r \<in> set t1" for r
  proof
    assume eq: "userId r = user_id usr"
    from sessions_invD4[OF inv sub[OF that]] obtain c where
      c: "map_of (activeSessions s) (userId r) = Some c" "session_id c = session_id r" by blast
    with eq have "t1 = deleteChannelSession (session_id c) (assistant_sessions s)"
      by (simp add: t1_def)
    with that c(2) show False by (simp add: set_deleteChannelSession)
  qed
  from fresh sub have fresh1: "newId \<notin> set (map session_id t1)" by auto
  have ups: "upsertChannelSession True now ?ses t1 = t1 @ [?ses]"
    using fresh1 by (simp add: upsertChannelSession_def)
  show run: "createSessionWithConversation usr conv agent ws now newId True s = (?ses, ?s')"
    using ups unfolding createSessionWithConversation_def t1_def
    by (cases "map_of (activeSessions s) (user_id usr)") (simp_all add: Let_def)
  have tab: "assistant_sessions (snd (createSessionWithConversation usr conv agent ws now newId True s))
      = t1 @ [?ses]"
    unfolding run t1_def by simp
  have "filter (\<lambda>row. userId row = user_id usr) t1 = []"
    using none by (simp add: filter_empty_conv)
  then show "filter (\<lambda>row. userId row = user_id usr)
           (assistant_sessions (snd (createSessionWithConversation usr conv agent ws now newId True s)))
         = [fst (createSessionWithConversation usr conv agent ws now newId True s)]"
    unfolding tab by (simp add: run)
  show "row \<notin> set (assistant_sessions (snd (createSessionWithConversation usr conv agent ws now newId True s)))"
    if r: "row \<in> set (assistant_sessions s)" and u: "userId row = user_id usr"
  proof -
    from r fresh have "session_id row \<noteq> newId" by auto
    then have "row \<noteq> ?ses" by auto
    moreover from none u have "row \<notin> set t1" by blast
    ultimately show ?thesis unfolding tab by simp
  qed
qed


text \<open>
  Claim C3.  Let the persisted table hold one row per session id and at most one row
  per user when the manager is constructed.  Then after any sequence of calls of
  \<open>createSession\<close>, \<open>createSessionWithConversation\<close>, \<open>clearSession\<close>,
  \<open>clearSessionByConversationId\<close> and \<open>cleanupStaleSessions\<close> (and of the two
  update methods), whatever their arguments, the session ids drawn and the fate of
  each write, every user id has at most one row in the persisted table and at most
  one session in the in-memory map.  And in the state so reached, a creation whose
  write is accepted and whose session id is not yet in the table replaces the user's
  session: the rows the table held for the user are gone, the table is the old one
  without the row of the session the map held for the user, followed by the new row,
  which is then the user's only row, and the map holds the new session for the user.
  \<open>createSession\<close> does the same with the conversation id it draws.
\<close>

theorem one_session_per_user:
  assumes ids: "distinct (map session_id table)"
    and one: "\<forall>u. length (filter (\<lambda>row. userId row = u) table) \<le> 1"
  shows "length (filter (\<lambda>row. userId row = u)
                   (assistant_sessions (after_session_calls cs (newSessionManager table)))) \<le> 1
       \<and> length (filter (\<lambda>e. userId (snd e) = u)
                   (activeSessions (after_session_calls cs (newSessionManager table)))) \<le> 1
       \<and> (newId \<notin> set (map session_id (assistant_sessions (after_session_calls cs (newSessionManager table))))
           \<longrightarrow>
           (case createSessionWithConversation usr conv agent ws now newId True
                   (after_session_calls cs (newSessionManager table)) of
              (session, s') \<Rightarrow>
                session = \<lparr>session_id = newId, userId = user_id usr, agentType = agent,
                           conversationId = Some conv, workspace = ws,
                           createdAt = now, lastActivity = now\<rparr>
                \<and> filter (\<lambda>row. userId row = user_id usr) (assistant_sessions s') = [session]
                \<and> getSession (user_id usr) s' = Some session
                \<and> (\<forall>row \<in> set (assistant_sessions (after_session_calls cs (newSessionManager table))).
                       userId row = user_id usr \<longrightarrow> row \<notin> set (assistant_sessions s'))
                \<and> (\<forall>old. getSession (user_id usr) (after_session_calls cs (newSessionManager table)) = Some old
                       \<longrightarrow> assistant_sessions s'
                            = deleteChannelSession (session_id old)
                                (assistant_sessions (after_session_calls cs (newSessionManager table)))
                              @ [session])
                \<and> createSession usr agent ws now conv newId True
                      (after_session_calls cs (newSessionManager table)) = (session, s')))"
proof -
  let ?S = "after_session_calls cs (newSessionManager table)"
  from one have "sessions_inv (newSessionManager table)" by (intro inv_new ids) simp
  then have i: "sessions_inv ?S" by (rule inv_after_session_calls)
  have bound: "length (filter (\<lambda>row. userId row = u) (assistant_sessions ?S)) \<le> 1
       \<and> length (filter (\<lambda>e. userId (snd e) = u) (activeSessions ?S)) \<le> 1"
    using inv_one_row[OF i, of u] inv_one_entry[OF i, of u] by (intro conjI)
  have post: "(case createSessionWithConversation usr conv agent ws now newId True ?S of
              (session, s') \<Rightarrow>
                session = \<lparr>session_id = newId, userId = user_id usr, agentType = agent,
                           conversationId = Some conv, workspace = ws,
                           createdAt = now, lastActivity = now\<rparr>
                \<and> filter (\<lambda>row. userId row = user_id usr) (assistant_sessions s') = [session]
                \<and> getSession (user_id usr) s' = Some session
                \<and> (\<forall>row \<in> set (assistant_sessions ?S).
                       userId row = user_id usr \<longrightarrow> row \<notin> set (assistant_sessions s'))
                \<and> (\<forall>old. getSession (user_id usr) ?S = Some old
                       \<longrightarrow> assistant_sessions s'
                            = deleteChannelSession (session_id old) (assistant_sessions ?S) @ [session])
                \<and> createSession usr agent ws now conv newId True ?S = (session, s'))"
    if fresh: "newId \<notin> set (map session_id (assistant_sessions ?S))"
  proof -
    note cr = create_replaces[OF i fresh, where usr=usr and conv=conv and agent=agent and ws=ws and now=now]
    obtain session s' where eq: "createSessionWithConversation usr conv agent ws now newId True ?S = (session, s')"
      by (cases "createSessionWithConversation usr conv agent ws now newId True ?S")
    have a: "session = \<lparr>session_id = newId, userId = user_id usr, agentType = agent,
                           conversationId = Some conv, workspace = ws,
                           createdAt = now, lastActivity = now\<rparr>"
      using cr(1) eq by simp
    have b: "filter (\<lambda>row. userId row = user_id usr) (assistant_sessions s') = [session]"
      using cr(2) eq by simp
    have c: "getSession (user_id usr) s' = Some session"
      using cr(1) eq by (auto simp: getSession_def AList.update_conv')
    have d: "row \<notin> set (assistant_sessions s')"
      if "row \<in> set (assistant_sessions ?S)" "userId row = user_id usr" for row
      using cr(3)[OF that] eq by simp
    have e: "assistant_sessions s' = deleteChannelSession (session_id old) (assistant_sessions ?S) @ [session]"
      if "getSession (user_id usr) ?S = Some old" for old
      using cr(1) eq that by (auto simp: getSession_def)
    have f: "createSession usr agent ws now conv newId True ?S = (session, s')"
      using eq by (simp add: createSession_def)
    from a b c d e f show ?thesis unfolding eq by blast
  qed
  from bound post show ?thesis by blast
qed

lemma calls0_result:
  "map session_id (assistant_sessions (after_session_calls calls0 (newSessionManager [row0]))) = [''s2'']
   \<and> map (\<lambda>e. (fst e, session_id (snd e)))
         (activeSessions (after_session_calls calls0 (newSessionManager [row0])))
       = [(''assistant_user_1'', ''s2'')]"
  by (simp add: calls0_def row0_def user9_def after_session_calls_def newSessionManager_def
      loadActiveSessions_def getChannelSessions_def createSession_def
      createSessionWithConversation_def deleteChannelSession_def upsertChannelSession_def Let_def)

lemma calls0_then_create:
  "map session_id
     (assistant_sessions
        (snd (createSessionWithConversation user9 ''c3'' gemini None 30 ''s3'' True
                (after_session_calls calls0 (newSessionManager [row0]))))) = [''s3'']"
  by (simp add: calls0_def row0_def user9_def after_session_calls_def newSessionManager_def
      loadActiveSessions_def getChannelSessions_def createSession_def
      createSessionWithConversation_def deleteChannelSession_def upsertChannelSession_def Let_def)

theorem one_session_per_user_witness:
  "distinct (map session_id [row0])
   \<and> map session_id (assistant_sessions (after_session_calls calls0 (newSessionManager [row0]))) = [''s2'']
   \<and> length (filter (\<lambda>row. userId row = ''assistant_user_1'')
               (assistant_sessions (after_session_calls calls0 (newSessionManager [row0])))) \<le> 1
   \<and> length (filter (\<lambda>e. userId (snd e) = ''assistant_user_1'')
               (activeSessions (after_session_calls calls0 (newSessionManager [row0])))) \<le> 1
   \<and> ''s3'' \<notin> set (map session_id
                       (assistant_sessions (after_session_calls calls0 (newSessionManager [row0]))))
   \<and> filter (\<lambda>row. userId row = ''assistant_user_1'')
         (assistant_sessions
            (snd (createSessionWithConversation user9 ''c3'' gemini None 30 ''s3'' True
                    (after_session_calls calls0 (newSessionManager [row0])))))
       = [\<lparr>session_id = ''s3'', userId = ''assistant_user_1'', agentType = gemini,
           conversationId = Some ''c3'', workspace = None, createdAt = 30, lastActivity = 30\<rparr>]
   \<and> getSession ''assistant_user_1''
         (snd (createSessionWithConversation user9 ''c3'' gemini None 30 ''s3'' True
                 (after_session_calls calls0 (newSessionManager [row0]))))
       = Some \<lparr>session_id = ''s3'', userId = ''assistant_user_1'', agentType = gemini,
               conversationId = Some ''c3'', workspace = None, createdAt = 30, lastActivity = 30\<rparr>
   \<and> map session_id
         (assistant_sessions
            (snd (createSessionWithConversation user9 ''c3'' gemini None 30 ''s3'' True
                    (after_session_calls calls0 (newSessionManager [row0]))))) = [''s3'']"
proof -
  have h1: "distinct (map session_id [row0])" by simp
  have h2: "\<forall>u. length (filter (\<lambda>row. userId row = u) [row0]) \<le> 1" by simp
  have fresh: "''s3'' \<notin> set (map session_id
                       (assistant_sessions (after_session_calls calls0 (newSessionManager [row0]))))"
    using calls0_result by simp
  have uid: "user_id user9 = ''assistant_user_1''" by (simp add: user9_def)
  from one_session_per_user [OF h1 h2, where u="''assistant_user_1''" and cs=calls0
      and newId="''s3''" and usr=user9 and conv="''c3''" and agent=gemini and ws=None and now=30]
    fresh calls0_result calls0_then_create uid
  show ?thesis by (auto split: prod.splits)
qed

section \<open>Properties of the router\<close>

lemma handlePairingShow_message:
  "\<exists>m. ar_message (fst (handlePairingShow env uid pt dn s)) = Some m"
  by (auto simp: handlePairingShow_def createSuccessResponse_def createErrorResponse_def
      split: prod.splits sum.splits)

lemma showPairing_effects:
  "\<exists>m s'. showPairing env msg g = (env_send env m, [PairingShow, SendMessage m], g\<lparr>pairingStore := s'\<rparr>)"
proof -
  obtain result s' where h: "handlePairingShow env (uu_id (msg_user msg)) (msg_platform msg)
             (Some (uu_displayName (msg_user msg))) (pairingStore g) = (result, s')"
    by (cases "handlePairingShow env (uu_id (msg_user msg)) (msg_platform msg)
             (Some (uu_displayName (msg_user msg))) (pairingStore g)")
  from handlePairingShow_message[of env "uu_id (msg_user msg)" "msg_platform msg"
      "Some (uu_displayName (msg_user msg))" "pairingStore g"] h
  obtain m where "ar_message result = Some m" by auto
  with h have "showPairing env msg g
      = (env_send env m, [PairingShow, SendMessage m], g\<lparr>pairingStore := s'\<rparr>)"
    by (simp add: showPairing_def sendMessage_def)
  then show ?thesis by blast
qed

lemma tryBody_unauthorized:
  assumes "(content_type (content msg) = ct_command \<and> content_text (content msg) = ''/start'')
           \<or> \<not> isUserAuthorized (uu_id (msg_user msg)) (msg_platform msg) (pairingStore g)"
  shows "tryBody env msg g = showPairing env msg g"
  using assms by (auto simp: tryBody_def Let_def)

text \<open>
  Claim C6, as the code has it.  For a message that is the entry command \<open>/start\<close>,
  whoever sends it, and for a message whose sender is not authorized: the handler
  performs no effect of the branches reserved to authorized senders (no lookup of the
  \<open>ChannelUser\<close>, no session lookup or creation, no conversation, no action and no
  chat processing) and leaves the session manager as it was; and when a plugin of the
  message's platform is running, the first thing it does is to invoke the pairing-show
  handler, followed only by sending messages.
\<close>

theorem unauthorized_shows_pairing:
  assumes unauth: "(content_type (content msg) = ct_command \<and> content_text (content msg) = ''/start'')
           \<or> \<not> isUserAuthorized (uu_id (msg_user msg)) (msg_platform msg) (pairingStore g)"
  shows "(case handleIncomingMessage env msg g of
            (r, effs, g') \<Rightarrow>
              filter needs_authorization effs = []
              \<and> sessionManager g' = sessionManager g
              \<and> (getPluginForMessage msg (pluginManager g) \<noteq> None \<longrightarrow>
                   (\<exists>m ms. effs = PairingShow # SendMessage m # map SendMessage ms)))"
proof (cases "getPluginForMessage msg (pluginManager g)")
  case None
  then show ?thesis by (simp add: handleIncomingMessage_def)
next
  case (Some plugin)
  from showPairing_effects[of env msg g] obtain m s' where
    sp: "showPairing env msg g = (env_send env m, [PairingShow, SendMessage m], g\<lparr>pairingStore := s'\<rparr>)"
    by blast
  show ?thesis
  proof (cases "env_send env m")
    case None
    with Some sp show ?thesis
      by (simp add: handleIncomingMessage_def tryBody_unauthorized[OF unauth])
  next
    case (Some e)
    have "\<exists>ms. [SendMessage (ProcessingError (message e))] = map SendMessage ms"
      by (rule exI[of _ "[ProcessingError (message e)]"]) simp
    with Some \<open>getPluginForMessage msg (pluginManager g) = Some plugin\<close> sp show ?thesis
      by (simp add: handleIncomingMessage_def tryBody_unauthorized[OF unauth] sendMessage_def)
  qed
qed

theorem unauthorized_shows_pairing_witness:
  "\<not> isUserAuthorized (uu_id (msg_user hello)) (msg_platform hello) (pairingStore gatewayT)
   \<and> getPluginForMessage hello (pluginManager gatewayT) \<noteq> None
   \<and> fst (snd (handleIncomingMessage envT hello gatewayT))
        = [PairingShow, SendMessage (PairingCodeNotice ''123456'' 10)]
   \<and> filter needs_authorization (fst (snd (handleIncomingMessage envT hello gatewayT))) = []
   \<and> sessionManager (snd (snd (handleIncomingMessage envT hello gatewayT))) = sessionManager gatewayT"
proof -
  have h: "\<not> isUserAuthorized (uu_id (msg_user hello)) (msg_platform hello) (pairingStore gatewayT)"
    by (simp add: isUserAuthorized_def getChannelUserByPlatform_def gatewayT_def store0_def hello_def)
  have p: "getPluginForMessage hello (pluginManager gatewayT) \<noteq> None"
    by (simp add: getPluginForMessage_def getAllPlugins_def gatewayT_def hello_def mgrOk_def plugin_eval)
  have first: "generatePairingCode (env_rnd envT) (env_now envT) ''u1'' telegram (Some ''Ann'') store0
     = (Inr (''123456'', 601000),
        \<lparr>assistant_pairing_codes = [request1\<lparr>displayName := Some ''Ann''\<rparr>], assistant_users = [],
         emitted = [pairingRequested (request1\<lparr>displayName := Some ''Ann''\<rparr>)]\<rparr>)"
    by (simp add: generatePairingCode_def getPendingPairingRequests_def store0_def
      request1_def generateUniqueCode.simps maxAttempts_def getPairingRequestByCode_def
      createPairingRequest_def CODE_EXPIRY_MS_def Let_def envT_def)
  have e: "fst (snd (handleIncomingMessage envT hello gatewayT))
        = [PairingShow, SendMessage (PairingCodeNotice ''123456'' 10)]"
    using p h first
    by (simp add: handleIncomingMessage_def tryBody_unauthorized showPairing_def handlePairingShow_def
        sendMessage_def createSuccessResponse_def expiresInMinutes_def
        hello_def gatewayT_def split: option.splits)
       (simp add: envT_def)
  from unauthorized_shows_pairing [of hello gatewayT envT] h p e
  show ?thesis by (auto split: prod.splits)
qed

text \<open>
  Claim C6 as stated fails where no plugin of the message's platform is running: the
  handler logs an error and returns before the authorization check, so the pairing-show handler is
  not invoked for the unauthorized sender.
\<close>

theorem no_plugin_no_pairing_show:
  "\<not> isUserAuthorized (uu_id (msg_user hello)) (msg_platform hello) (pairingStore gatewayNoPlugin)
   \<and> handleIncomingMessage envT hello gatewayNoPlugin = (None, [LogNoPlugin], gatewayNoPlugin)"
  by (simp add: isUserAuthorized_def getChannelUserByPlatform_def gatewayNoPlugin_def store0_def
      hello_def handleIncomingMessage_def getPluginForMessage_def getAllPlugins_def
      newPluginManager_def)

section \<open>Properties of the streaming throttle\<close>

lemma throttled_times_append:
  "throttled_times (cs @ ds) = throttled_times cs @ throttled_times ds"
  by (induction cs rule: throttled_times.induct) simp_all

lemma final_edits_append: "final_edits (cs @ ds) = final_edits cs @ final_edits ds"
  by (induction cs rule: final_edits.induct) simp_all

lemma spaced_snoc:
  "spaced ts \<Longrightarrow> (ts \<noteq> [] \<Longrightarrow> t - last ts \<ge> UPDATE_THROTTLE_MS) \<Longrightarrow> spaced (ts @ [t])"
  by (induction ts rule: spaced.induct) simp_all

lemma spaced_lower: "spaced (t # ts) \<Longrightarrow> x \<in> set ts \<Longrightarrow> x \<ge> t + UPDATE_THROTTLE_MS"
proof (induction ts arbitrary: t)
  case Nil
  then show ?case by simp
next
  case (Cons a ts)
  from Cons.prems(1) have a: "a - t \<ge> UPDATE_THROTTLE_MS" and s: "spaced (a # ts)" by simp_all
  show ?case
  proof (cases "x = a")
    case True
    with a show ?thesis by simp
  next
    case False
    with Cons.prems(2) have "x \<in> set ts" by simp
    from Cons.IH[OF s this] a show ?thesis by (simp add: UPDATE_THROTTLE_MS_def)
  qed
qed

lemma spaced_tail: "spaced (t # ts) \<Longrightarrow> spaced ts"
  by (cases ts) simp_all

lemma spaced_window:
  "spaced ts \<Longrightarrow> length (filter (\<lambda>t. w \<le> t \<and> t < w + UPDATE_THROTTLE_MS) ts) \<le> 1"
proof (induction ts)
  case Nil
  then show ?case by simp
next
  case (Cons t ts)
  show ?case
  proof (cases "w \<le> t \<and> t < w + UPDATE_THROTTLE_MS")
    case True
    have "\<not> (w \<le> x \<and> x < w + UPDATE_THROTTLE_MS)" if "x \<in> set ts" for x
      using spaced_lower[OF Cons.prems that] True by simp
    then have "filter (\<lambda>t. w \<le> t \<and> t < w + UPDATE_THROTTLE_MS) ts = []"
      by (simp add: filter_empty_conv)
    with True show ?thesis by simp
  next
    case False
    then have "filter (\<lambda>t. w \<le> t \<and> t < w + UPDATE_THROTTLE_MS) (t # ts)
                 = filter (\<lambda>t. w \<le> t \<and> t < w + UPDATE_THROTTLE_MS) ts"
      by auto
    with Cons.IH[OF spaced_tail[OF Cons.prems]] show ?thesis by (simp only:)
  qed
qed

lemma throttle_inv_new: "throttle_inv (newChatStream k)"
  by (simp add: throttle_inv_def newChatStream_def)

lemma throttle_invI:
  assumes "spaced (throttled_times (calls st))"
    and "throttled_times (calls st) \<noteq> [] \<Longrightarrow> last (throttled_times (calls st)) = lastUpdateTime st"
    and "\<And>due. pendingUpdateTimer st = Some due \<Longrightarrow> due = lastUpdateTime st + UPDATE_THROTTLE_MS"
  shows "throttle_inv st"
  unfolding throttle_inv_def using assms by blast

lemma throttle_invD:
  assumes "throttle_inv st"
  shows "spaced (throttled_times (calls st))"
    and "throttled_times (calls st) \<noteq> [] \<Longrightarrow> last (throttled_times (calls st)) = lastUpdateTime st"
    and "pendingUpdateTimer st = Some due \<Longrightarrow> due = lastUpdateTime st + UPDATE_THROTTLE_MS"
  using assms unfolding throttle_inv_def by blast+

lemma throttle_inv_edit:
  assumes inv: "throttle_inv st" and late: "now - lastUpdateTime st \<ge> UPDATE_THROTTLE_MS"
    and st': "calls st' = calls st @ [ThrottledEdit now target m]"
      "lastUpdateTime st' = now" "pendingUpdateTimer st' = None"
  shows "throttle_inv st'"
proof (rule throttle_invI)
  have tt: "throttled_times (calls st') = throttled_times (calls st) @ [now]"
    by (simp add: st' throttled_times_append)
  show "spaced (throttled_times (calls st'))"
    unfolding tt using throttle_invD(1,2)[OF inv] late by (intro spaced_snoc) simp_all
  show "last (throttled_times (calls st')) = lastUpdateTime st'"
    unfolding tt by (simp add: st'(2))
  show "due = lastUpdateTime st' + UPDATE_THROTTLE_MS" if "pendingUpdateTimer st' = Some due" for due
    using that by (simp add: st')
qed

lemma throttle_inv_same_edits:
  assumes inv: "throttle_inv st"
    and st': "throttled_times (calls st') = throttled_times (calls st)"
      "lastUpdateTime st' = lastUpdateTime st"
      "pendingUpdateTimer st' = None \<or> pendingUpdateTimer st' = pendingUpdateTimer st
       \<or> pendingUpdateTimer st' = Some (lastUpdateTime st + UPDATE_THROTTLE_MS)"
  shows "throttle_inv st'"
proof (rule throttle_invI)
  show "spaced (throttled_times (calls st'))" using throttle_invD(1)[OF inv] by (simp add: st')
  show "last (throttled_times (calls st')) = lastUpdateTime st'" if "throttled_times (calls st') \<noteq> []"
    using throttle_invD(2)[OF inv] that by (simp add: st')
  show "due = lastUpdateTime st' + UPDATE_THROTTLE_MS" if "pendingUpdateTimer st' = Some due" for due
    using st'(3) that throttle_invD(3)[OF inv, of due] by (auto simp: st'(2))
qed

lemma throttle_inv_step:
  assumes inv: "throttle_inv st"
  shows "throttle_inv (step convert st x)"
proof (cases x)
  case (Event now m isInsert sent)
  show ?thesis
  proof (cases isInsert)
    case True
    show ?thesis
      by (rule throttle_inv_same_edits[OF inv])
         (simp_all add: Event True Let_def throttled_times_append split: option.splits)
  next
    case False
    show ?thesis
    proof (cases "now - lastUpdateTime st \<ge> UPDATE_THROTTLE_MS")
      case late: True
      show ?thesis
        by (rule throttle_inv_edit[OF inv late, of _ "targetMsgId (st\<lparr>lastMessageContent := Some (convert m),
              pendingMessage := Some (convert m), pendingUpdateTimer := None\<rparr>)" "convert m"])
           (simp_all add: Event False late Let_def doEditMessage_def)
    next
      case early: False
      show ?thesis
        by (rule throttle_inv_same_edits[OF inv])
           (simp_all add: Event False early Let_def)
    qed
  qed
next
  case (TimerFires t)
  show ?thesis
  proof (cases "pendingUpdateTimer st")
    case None
    with inv show ?thesis by (simp add: TimerFires)
  next
    case (Some due)
    from throttle_invD(3)[OF inv Some] have due: "due = lastUpdateTime st + UPDATE_THROTTLE_MS" .
    show ?thesis
    proof (cases "t < due")
      case True
      with inv Some show ?thesis by (simp add: TimerFires)
    next
      case False
      show ?thesis
      proof (cases "pendingMessage st")
        case None
        show ?thesis
          by (rule throttle_inv_same_edits[OF inv])
             (simp_all add: TimerFires Some False None)
      next
        case (Some m)
        from False due have late: "t - lastUpdateTime st \<ge> UPDATE_THROTTLE_MS" by simp
        show ?thesis
          by (rule throttle_inv_edit[OF inv late, of _ "targetMsgId st" m])
             (simp_all add: TimerFires \<open>pendingUpdateTimer st = Some due\<close> False Some doEditMessage_def)
      qed
    qed
  qed
qed

lemma throttle_inv_foldl:
  "throttle_inv st \<Longrightarrow> throttle_inv (foldl (step convert) st steps)"
  by (induction steps arbitrary: st) (simp_all add: throttle_inv_step)

lemma lastMessageContent_step:
  "lastMessageContent (step convert st x)
     = (case x of Event now m isInsert sent \<Rightarrow> Some (convert m) | TimerFires t \<Rightarrow> lastMessageContent st)"
  by (cases x) (simp_all add: Let_def doEditMessage_def split: option.splits)

lemma lastMessageContent_foldl:
  "lastMessageContent (foldl (step convert) st steps)
     = (if events steps = [] then lastMessageContent st else Some (convert (last (events steps))))"
proof (induction steps arbitrary: st)
  case Nil
  then show ?case by simp
next
  case (Cons x steps)
  show ?case
  proof (cases x)
    case (Event now m isInsert sent)
    then show ?thesis
      by (simp add: Cons.IH lastMessageContent_step del: step.simps)
  next
    case (TimerFires t)
    then show ?thesis
      by (simp add: Cons.IH lastMessageContent_step del: step.simps)
  qed
qed

lemma final_edits_step: "final_edits (calls (step convert st x)) = final_edits (calls st)"
  by (cases x) (simp_all add: Let_def doEditMessage_def final_edits_append split: option.splits)

lemma final_edits_foldl:
  "final_edits (calls (foldl (step convert) st steps)) = final_edits (calls st)"
  by (induction steps arbitrary: st) (simp_all add: final_edits_step del: step.simps)

lemma throttled_times_finish:
  "throttled_times (calls (finish done t st)) = throttled_times (calls st)"
  by (simp add: finish_def Let_def throttled_times_append)

lemma spaced_handleChatMessage:
  "spaced (throttled_times (handleChatMessage convert done sid conv thinking steps thrown t))"
proof -
  have "throttle_inv (foldl (step convert) (newChatStream thinking) steps)"
    by (rule throttle_inv_foldl) (rule throttle_inv_new)
  from throttle_invD(1)[OF this] show ?thesis
    by (simp add: handleChatMessage_def Let_def throttled_times_finish throttled_times_append
        split: option.splits)
qed

text \<open>
  Claim C1.  For every stream of response events and every schedule of the timer: any
  window of 500 ms, wherever it starts, holds at most one edit issued by the throttled
  editor (so at most one for any single message); and when the stream has delivered an
  event and completes, exactly one final edit is made, it is the last call, and it
  carries the converted content of the last event received with the response actions
  keyboard attached, wherever that event fell with respect to the throttle window.
\<close>

theorem throttled_stream:
  "length (filter (\<lambda>x. w \<le> x \<and> x < w + UPDATE_THROTTLE_MS)
             (throttled_times (handleChatMessage convert done sid conv thinking steps thrown t))) \<le> 1
   \<and> (\<not> falsy sid \<and> \<not> falsy conv \<and> thrown = None \<and> events steps \<noteq> [] \<longrightarrow>
        final_edits (handleChatMessage convert done sid conv thinking steps thrown t)
          = [(convert (last (events steps)))\<lparr>replyMarkup := Some ResponseActionsKeyboard\<rparr>]
        \<and> (\<exists>target. last (handleChatMessage convert done sid conv thinking steps thrown t)
              = FinalEdit t target
                  ((convert (last (events steps)))\<lparr>replyMarkup := Some ResponseActionsKeyboard\<rparr>)))"
proof (intro conjI impI)
  show "length (filter (\<lambda>x. w \<le> x \<and> x < w + UPDATE_THROTTLE_MS)
             (throttled_times (handleChatMessage convert done sid conv thinking steps thrown t))) \<le> 1"
    by (rule spaced_window) (rule spaced_handleChatMessage)
next
  assume a: "\<not> falsy sid \<and> \<not> falsy conv \<and> thrown = None \<and> events steps \<noteq> []"
  let ?st = "foldl (step convert) (newChatStream thinking) steps"
  from a have run: "handleChatMessage convert done sid conv thinking steps thrown t
      = calls (finish done t ?st)"
    by (simp add: handleChatMessage_def Let_def)
  from a have lmc: "lastMessageContent ?st = Some (convert (last (events steps)))"
    by (simp add: lastMessageContent_foldl)
  have fin: "calls (finish done t ?st)
      = calls ?st @ [FinalEdit t (targetMsgId (?st\<lparr>pendingUpdateTimer := None\<rparr>))
                       ((convert (last (events steps)))\<lparr>replyMarkup := Some ResponseActionsKeyboard\<rparr>)]"
    by (simp add: finish_def Let_def lmc)
  show "final_edits (handleChatMessage convert done sid conv thinking steps thrown t)
          = [(convert (last (events steps)))\<lparr>replyMarkup := Some ResponseActionsKeyboard\<rparr>]"
    unfolding run fin by (simp add: final_edits_append final_edits_foldl newChatStream_def)
  show "\<exists>target. last (handleChatMessage convert done sid conv thinking steps thrown t)
              = FinalEdit t target
                  ((convert (last (events steps)))\<lparr>replyMarkup := Some ResponseActionsKeyboard\<rparr>)"
    unfolding run fin by simp
qed

lemma steps0_calls:
  "handleChatMessage plain ''Done'' (Some ''s1'') (Some ''conv1'') ''msg1'' steps0 None 1700000000250
     = [ThrottledEdit 1700000000000 ''msg1'' (plain ''He''),
        FinalEdit 1700000000250 ''msg1'' \<lparr>body = ''Hello'', replyMarkup = Some ResponseActionsKeyboard\<rparr>]"
  by (simp add: handleChatMessage_def falsy_def steps0_def newChatStream_def Let_def
      doEditMessage_def targetMsgId_def finish_def plain_def UPDATE_THROTTLE_MS_def)

theorem throttled_stream_witness:
  "\<not> falsy (Some ''s1'') \<and> \<not> falsy (Some ''conv1'') \<and> events steps0 \<noteq> []
   \<and> handleChatMessage plain ''Done'' (Some ''s1'') (Some ''conv1'') ''msg1'' steps0 None 1700000000250
     = [ThrottledEdit 1700000000000 ''msg1'' (plain ''He''),
        FinalEdit 1700000000250 ''msg1'' \<lparr>body = ''Hello'', replyMarkup = Some ResponseActionsKeyboard\<rparr>]
   \<and> length (filter (\<lambda>x. 1700000000000 \<le> x \<and> x < 1700000000000 + UPDATE_THROTTLE_MS)
        (throttled_times
           (handleChatMessage plain ''Done'' (Some ''s1'') (Some ''conv1'') ''msg1'' steps0 None
              1700000000250))) \<le> 1
   \<and> final_edits
        (handleChatMessage plain ''Done'' (Some ''s1'') (Some ''conv1'') ''msg1'' steps0 None 1700000000250)
     = [(plain (last (events steps0)))\<lparr>replyMarkup := Some ResponseActionsKeyboard\<rparr>]"
proof -
  have h: "\<not> falsy (Some ''s1'') \<and> \<not> falsy (Some ''conv1'') \<and> events steps0 \<noteq> []"
    by (simp add: falsy_def steps0_def)
  from throttled_stream [of 1700000000000 plain "''Done''" "Some ''s1''" "Some ''conv1''" "''msg1''"
      steps0 None 1700000000250] h steps0_calls
  show ?thesis by simp
qed

end
